theory Spec2Isabelle
  imports Main "HOL-Library.Finite_Map" "HOL-Library.Multiset"
begin

section \<open>Data model (package models)\<close>

text \<open>
  Go's \<open>int\<close> is modelled as \<open>int\<close>: the only arithmetic on sequence numbers is
  \<open>NextToSend++\<close> and the loop counter \<open>i++\<close>, both bounded by the number of entries of
  an in-memory map, so the 64-bit wrap-around is out of reach.  \<open>time.Time\<close> and
  \<open>time.Duration\<close> are integers (nanoseconds), the zero \<open>time.Time\<close> being \<open>0\<close>.
  A Go map is a finite map; a nil map is \<open>None\<close>.

  The values of a metadata bag are what \<open>encoding/json\<close> decodes into \<open>interface{}\<close>.
  The type \<open>'f\<close> stands for \<open>float64\<close>; the conversion \<open>int(tokens)\<close> of
  \<open>FinalizeMessage\<close> is a parameter of the model.
\<close>

type_synonym time = int

datatype 'f json_value =
    JNull
  | JBool bool
  | JNumber 'f
  | JString string
  | JArray "'f json_value list"
  | JObject "(string \<times> 'f json_value) list"

record 'f ResponseChunk =
  SessionID :: string
  MessageID :: string
  ChunkID :: int
  Chunk :: string
  ChunkType :: string
  IsFinal :: bool
  Metadata :: "(string, 'f json_value) fmap option"
  Timestamp :: time
  CorrelationID :: string

record 'f Message =
  msg_MessageID :: string
  msg_SessionID :: string
  Role :: string
  Content :: string
  msg_CreatedAt :: time
  TokenCount :: int
  msg_Metadata :: "(string, 'f json_value) fmap option"

record BufferState =
  TotalExpected :: int
  TotalReceived :: int
  TotalSent :: int
  MissingChunks :: "int list"
  IsComplete :: bool

section \<open>Reorder buffers (package buffer)\<close>

record 'f ChunkBuffer =
  buf_SessionID :: string
  buf_MessageID :: string
  Chunks :: "(int, 'f ResponseChunk) fmap"
  MaxChunkID :: int
  NextToSend :: int
  buf_IsFinal :: bool
  FinalChunkID :: int
  CreatedAt :: time
  UpdatedAt :: time

record 'f Manager =
  buffers :: "(string, 'f ChunkBuffer) fmap"
  maxBuffersPerPod :: int
  maxChunksPerBuffer :: int
  maxBufferAge :: int
  cleanupInterval :: int
  missingChunkTimeout :: int

datatype buffer_error =
    BufferLimitReached
  | ChunkLimitReached
  | BufferNotFound
  | NotYetFinalized
  | MissingChunk int
  | NilDereference

definition NewManager :: "int \<Rightarrow> int \<Rightarrow> int \<Rightarrow> int \<Rightarrow> int \<Rightarrow> 'f Manager" where
  "NewManager maxBuffers maxChunks maxAge cleanupIv missingTimeout =
     \<lparr> buffers = fmempty,
       maxBuffersPerPod = maxBuffers,
       maxChunksPerBuffer = maxChunks,
       maxBufferAge = maxAge,
       cleanupInterval = cleanupIv,
       missingChunkTimeout = missingTimeout \<rparr>"

text \<open>\<open>len\<close> of a Go map.\<close>

definition len :: "('k, 'v) fmap \<Rightarrow> int" where
  "len m = int (fcard (fmdom m))"

text \<open>The buffer literal of \<open>AddChunk\<close>; the fields it does not name are Go's zero values.\<close>

definition new_buffer :: "'f ResponseChunk \<Rightarrow> time \<Rightarrow> 'f ChunkBuffer" where
  "new_buffer chunk now =
     \<lparr> buf_SessionID = SessionID chunk,
       buf_MessageID = MessageID chunk,
       Chunks = fmempty,
       MaxChunkID = 0,
       NextToSend = 0,
       buf_IsFinal = False,
       FinalChunkID = 0,
       CreatedAt = now,
       UpdatedAt = 0 \<rparr>"

text \<open>The part of \<open>AddChunk\<close> after the duplicate check: store the chunk in the buffer.\<close>

definition store_chunk :: "'f ChunkBuffer \<Rightarrow> time \<Rightarrow> 'f ResponseChunk \<Rightarrow> 'f ChunkBuffer" where
  "store_chunk buffer now chunk =
     (let b1 = buffer\<lparr> Chunks := fmupd (ChunkID chunk) chunk (Chunks buffer), UpdatedAt := now \<rparr>;
          b2 = (if ChunkID chunk > MaxChunkID b1 then b1\<lparr> MaxChunkID := ChunkID chunk \<rparr> else b1)
      in if IsFinal chunk then b2\<lparr> buf_IsFinal := True, FinalChunkID := ChunkID chunk \<rparr> else b2)"

text \<open>
  \<open>AddChunk\<close> returns the error (\<open>None\<close> is Go's \<open>nil\<close>) and the manager as the call
  leaves it: a buffer created by the call stays in the map when the per-buffer limit
  then rejects the chunk.
\<close>

definition AddChunk ::
  "'f Manager \<Rightarrow> time \<Rightarrow> 'f ResponseChunk \<Rightarrow> buffer_error option \<times> 'f Manager" where
  "AddChunk m now chunk =
     (if len (buffers m) \<ge> maxBuffersPerPod m then (Some BufferLimitReached, m)
      else
        let (buffer, m1) =
              (case fmlookup (buffers m) (MessageID chunk) of
                 Some b \<Rightarrow> (b, m)
               | None \<Rightarrow>
                   (new_buffer chunk now,
                    m\<lparr> buffers := fmupd (MessageID chunk) (new_buffer chunk now) (buffers m) \<rparr>))
        in if len (Chunks buffer) \<ge> maxChunksPerBuffer m then (Some ChunkLimitReached, m1)
           else
             (case fmlookup (Chunks buffer) (ChunkID chunk) of
                Some existing \<Rightarrow>
                  (if Chunk existing \<noteq> Chunk chunk then (None, m1) else (None, m1))
              | None \<Rightarrow>
                  (None,
                   m1\<lparr> buffers :=
                         fmupd (MessageID chunk) (store_chunk buffer now chunk) (buffers m1) \<rparr>)))"

text \<open>
  The collecting loop of \<open>GetNextChunks\<close>: the arguments are the fragment map, the
  counter \<open>NextToSend\<close> and \<open>chunksToSend\<close>; the result is the list and the counter when
  the loop breaks.  The map is finite, so the loop ends.
\<close>

function GetNextChunks_loop ::
  "(int, 'f ResponseChunk) fmap \<Rightarrow> int \<Rightarrow> 'f ResponseChunk list
     \<Rightarrow> 'f ResponseChunk list \<times> int" where
  "GetNextChunks_loop chunks n chunksToSend =
     (case fmlookup chunks n of
        None \<Rightarrow> (chunksToSend, n)
      | Some chunk \<Rightarrow>
          if IsFinal chunk then (chunksToSend @ [chunk], n + 1)
          else GetNextChunks_loop chunks (n + 1) (chunksToSend @ [chunk]))"
  by pat_completeness auto
termination
proof (relation "measure (\<lambda>(chunks, n, acc). card {k \<in> fset (fmdom chunks). n \<le> k})")
  show "wf (measure (\<lambda>(chunks, n, acc). card {k \<in> fset (fmdom chunks). n \<le> k}))"
    by simp
next
  fix chunks :: "(int, 'f ResponseChunk) fmap" and n :: int
    and chunksToSend :: "'f ResponseChunk list" and chunk
  assume look: "fmlookup chunks n = Some chunk"
  have mem: "n \<in> {k \<in> fset (fmdom chunks). n \<le> k}"
    using look by (simp add: fmdomI)
  have nmem: "n \<notin> {k \<in> fset (fmdom chunks). n + 1 \<le> k}"
    by simp
  have sub: "{k \<in> fset (fmdom chunks). n + 1 \<le> k} \<subseteq> {k \<in> fset (fmdom chunks). n \<le> k}"
    by auto
  have "{k \<in> fset (fmdom chunks). n + 1 \<le> k} \<subset> {k \<in> fset (fmdom chunks). n \<le> k}"
    using mem nmem sub by blast
  then have "card {k \<in> fset (fmdom chunks). n + 1 \<le> k} < card {k \<in> fset (fmdom chunks). n \<le> k}"
    by (intro psubset_card_mono) simp_all
  then show "((chunks, n + 1, chunksToSend @ [chunk]), (chunks, n, chunksToSend))
      \<in> measure (\<lambda>(chunks, n, acc). card {k \<in> fset (fmdom chunks). n \<le> k})"
    by simp
qed

definition GetNextChunks ::
  "'f Manager \<Rightarrow> string
     \<Rightarrow> (buffer_error + 'f ResponseChunk list \<times> bool) \<times> 'f Manager" where
  "GetNextChunks m messageID =
     (case fmlookup (buffers m) messageID of
        None \<Rightarrow> (Inl BufferNotFound, m)
      | Some buffer \<Rightarrow>
          let (chunksToSend, n) = GetNextChunks_loop (Chunks buffer) (NextToSend buffer) [];
              buffer' = buffer\<lparr> NextToSend := n \<rparr>;
              isComplete = (buf_IsFinal buffer' \<and> NextToSend buffer' > FinalChunkID buffer')
          in (Inr (chunksToSend, isComplete),
              m\<lparr> buffers := fmupd messageID buffer' (buffers m) \<rparr>))"

text \<open>
  The two counting loops of \<open>FinalizeMessage\<close>, \<open>for i := 0; i <= FinalChunkID; i++\<close>.
  The first returns the first missing sequence, if any.  The second carries
  \<open>fullContent\<close>, \<open>totalTokens\<close> and \<open>metadata\<close>; reading a missing entry gives a nil
  pointer, whose dereference panics (\<open>None\<close>).
\<close>

function FinalizeMessage_verify ::
  "(int, 'f ResponseChunk) fmap \<Rightarrow> int \<Rightarrow> int \<Rightarrow> int option" where
  "FinalizeMessage_verify chunks i final =
     (if i \<le> final then
        (case fmlookup chunks i of
           None \<Rightarrow> Some i
         | Some c \<Rightarrow> FinalizeMessage_verify chunks (i + 1) final)
      else None)"
  by pat_completeness auto
termination
  by (relation "measure (\<lambda>(chunks, i, final). nat (final + 1 - i))") auto

text \<open>The type assertion \<open>chunk.Metadata["tokens_used"].(float64)\<close>.\<close>

definition tokens_used :: "(string, 'f json_value) fmap \<Rightarrow> 'f option" where
  "tokens_used md =
     (case fmlookup md ''tokens_used'' of
        Some (JNumber tokens) \<Rightarrow> Some tokens
      | _ \<Rightarrow> None)"

text \<open>The body of the second loop, for the chunk read at the counter.\<close>

definition FinalizeMessage_body ::
  "('f \<Rightarrow> int) \<Rightarrow> 'f ResponseChunk
     \<Rightarrow> string \<times> int \<times> (string, 'f json_value) fmap option
     \<Rightarrow> string \<times> int \<times> (string, 'f json_value) fmap option" where
  "FinalizeMessage_body to_int chunk acc =
     (case acc of (fullContent, totalTokens, metadata) \<Rightarrow>
        let fullContent' =
              (if ChunkType chunk = ''content'' then fullContent @ Chunk chunk
               else fullContent)
        in (case Metadata chunk of
              Some md \<Rightarrow>
                if IsFinal chunk then
                  (fullContent',
                   (case tokens_used md of
                      Some tokens \<Rightarrow> to_int tokens
                    | None \<Rightarrow> totalTokens),
                   Some md)
                else (fullContent', totalTokens, metadata)
            | None \<Rightarrow> (fullContent', totalTokens, metadata)))"

function FinalizeMessage_reconstruct ::
  "('f \<Rightarrow> int) \<Rightarrow> (int, 'f ResponseChunk) fmap \<Rightarrow> int \<Rightarrow> int
     \<Rightarrow> string \<times> int \<times> (string, 'f json_value) fmap option
     \<Rightarrow> (string \<times> int \<times> (string, 'f json_value) fmap option) option" where
  "FinalizeMessage_reconstruct to_int chunks i final acc =
     (if i \<le> final then
        (case fmlookup chunks i of
           None \<Rightarrow> None
         | Some chunk \<Rightarrow>
             FinalizeMessage_reconstruct to_int chunks (i + 1) final
               (FinalizeMessage_body to_int chunk acc))
      else Some acc)"
  by pat_completeness auto
termination
  by (relation "measure (\<lambda>(to_int, chunks, i, final, acc). nat (final + 1 - i))") auto

definition FinalizeMessage ::
  "('f \<Rightarrow> int) \<Rightarrow> 'f Manager \<Rightarrow> string \<Rightarrow> time
     \<Rightarrow> (buffer_error + 'f Message) \<times> 'f Manager" where
  "FinalizeMessage to_int m messageID now =
     (case fmlookup (buffers m) messageID of
        None \<Rightarrow> (Inl BufferNotFound, m)
      | Some buffer \<Rightarrow>
          let m' = m\<lparr> buffers := fmdrop messageID (buffers m) \<rparr>
          in if \<not> buf_IsFinal buffer then (Inl NotYetFinalized, m')
             else
               (case FinalizeMessage_verify (Chunks buffer) 0 (FinalChunkID buffer) of
                  Some i \<Rightarrow> (Inl (MissingChunk i), m')
                | None \<Rightarrow>
                    (case FinalizeMessage_reconstruct to_int (Chunks buffer) 0
                            (FinalChunkID buffer) ([], 0, None) of
                       None \<Rightarrow> (Inl NilDereference, m')
                     | Some (fullContent, totalTokens, metadata) \<Rightarrow>
                         (Inr \<lparr> msg_MessageID = messageID,
                                msg_SessionID = buf_SessionID buffer,
                                Role = ''assistant'',
                                Content = fullContent,
                                msg_CreatedAt = now,
                                TokenCount = totalTokens,
                                msg_Metadata = metadata \<rparr>,
                          m'))))"

text \<open>The loop of \<open>GetState\<close> that appends the missing sequences to \<open>state.MissingChunks\<close>.\<close>

function GetState_missing ::
  "(int, 'f ResponseChunk) fmap \<Rightarrow> int \<Rightarrow> int \<Rightarrow> int list \<Rightarrow> int list" where
  "GetState_missing chunks i final missing =
     (if i \<le> final then
        (case fmlookup chunks i of
           None \<Rightarrow> GetState_missing chunks (i + 1) final (missing @ [i])
         | Some c \<Rightarrow> GetState_missing chunks (i + 1) final missing)
      else missing)"
  by pat_completeness auto
termination
  by (relation "measure (\<lambda>(chunks, i, final, missing). nat (final + 1 - i))") auto

text \<open>\<open>GetState\<close> only reads; the manager is returned as it was.\<close>

definition GetState ::
  "'f Manager \<Rightarrow> string \<Rightarrow> (buffer_error + BufferState) \<times> 'f Manager" where
  "GetState m messageID =
     (case fmlookup (buffers m) messageID of
        None \<Rightarrow> (Inl BufferNotFound, m)
      | Some buffer \<Rightarrow>
          let state = \<lparr> TotalExpected = 0,
                        TotalReceived = len (Chunks buffer),
                        TotalSent = NextToSend buffer,
                        MissingChunks = [],
                        IsComplete = False \<rparr>
          in if buf_IsFinal buffer then
               let missing = GetState_missing (Chunks buffer) 0 (FinalChunkID buffer) []
               in (Inr (state\<lparr> TotalExpected := FinalChunkID buffer + 1,
                                MissingChunks := missing,
                                IsComplete := (length missing = 0) \<rparr>), m)
             else (Inr state, m))"

text \<open>
  One pass of the sweeper at time \<open>now\<close>: \<open>staleBuffers\<close> is the set of message ids
  collected by the first loop (a Go map is ranged over in no fixed order), the second
  loop deletes them.  \<open>UpdatedAt.Before(staleThreshold)\<close> is \<open><\<close>.
\<close>

definition staleBuffers :: "'f Manager \<Rightarrow> time \<Rightarrow> string fset" where
  "staleBuffers m now =
     (let staleThreshold = now - maxBufferAge m
      in ffilter
           (\<lambda>messageID.
              case fmlookup (buffers m) messageID of
                None \<Rightarrow> False
              | Some buffer \<Rightarrow>
                  let isStale = UpdatedAt buffer < staleThreshold;
                      isFinal = buf_IsFinal buffer
                  in isStale \<or> isFinal)
           (fmdom (buffers m)))"

definition cleanup :: "'f Manager \<Rightarrow> time \<Rightarrow> 'f Manager" where
  "cleanup m now = m\<lparr> buffers := fmdrop_fset (staleBuffers m now) (buffers m) \<rparr>"

definition GetBufferCount :: "'f Manager \<Rightarrow> int" where
  "GetBufferCount m = len (buffers m)"

section \<open>Directory client (package registry)\<close>

datatype registry_error =
    RedisError
  | SliceBoundsOutOfRange

text \<open>
  Go's slice expressions \<open>s[lo:]\<close> and \<open>s[:hi]\<close> on a string: a bound outside
  \<open>0 .. len(s)\<close> is a run-time panic.  A Go string is a byte sequence, as a HOL string is.
\<close>

definition slice_from :: "string \<Rightarrow> int \<Rightarrow> string option" where
  "slice_from s lo =
     (if 0 \<le> lo \<and> lo \<le> int (length s) then Some (drop (nat lo) s) else None)"

definition slice_to :: "string \<Rightarrow> int \<Rightarrow> string option" where
  "slice_to s hi =
     (if 0 \<le> hi \<and> hi \<le> int (length s) then Some (take (nat hi) s) else None)"

text \<open>The expression \<open>member[:len(member)-len(member[len(member)-36:])-1]\<close>.\<close>

definition extract_podID :: "string \<Rightarrow> registry_error + string" where
  "extract_podID member =
     (case slice_from member (int (length member) - 36) of
        None \<Rightarrow> Inl SliceBoundsOutOfRange
      | Some suffix \<Rightarrow>
          (case slice_to member (int (length member) - int (length suffix) - 1) of
             None \<Rightarrow> Inl SliceBoundsOutOfRange
           | Some podID \<Rightarrow> Inr podID))"

text \<open>The loop over \<open>members\<close> that fills \<open>podMap\<close>.\<close>

fun GetActivePods_loop :: "string list \<Rightarrow> string fset \<Rightarrow> registry_error + string fset" where
  "GetActivePods_loop [] podMap = Inr podMap"
| "GetActivePods_loop (member # members) podMap =
     (case extract_podID member of
        Inl e \<Rightarrow> Inl e
      | Inr podID \<Rightarrow>
          GetActivePods_loop members
            (if length podID > 0 then finsert podID podMap else podMap))"

text \<open>
  \<open>GetActivePods\<close>, given what \<open>SMembers\<close> returned for the session key.  The result
  slice lists the keys of \<open>podMap\<close> in no fixed order, so it is returned as a set.
\<close>

definition GetActivePods :: "registry_error + string list \<Rightarrow> registry_error + string fset" where
  "GetActivePods smembers =
     (case smembers of
        Inl e \<Rightarrow> Inl RedisError
      | Inr members \<Rightarrow> GetActivePods_loop members {||})"

text \<open>The value \<open>RegisterConnection\<close> adds to the set: \<open>fmt.Sprintf("%s:%s", PodID, ConnectionID)\<close>.\<close>

definition membership :: "string \<Rightarrow> string \<Rightarrow> string" where
  "membership podID connectionID = podID @ '':'' @ connectionID"

text \<open>
  The instance id the specification asks for: the part of the member before its last
  \<open>':'\<close> (\<open>None\<close> when the member has no \<open>':'\<close>).
\<close>

fun before_last_colon :: "string \<Rightarrow> string option" where
  "before_last_colon [] = None"
| "before_last_colon (c # cs) =
     (case before_last_colon cs of
        Some rest \<Rightarrow> Some (c # rest)
      | None \<Rightarrow> if c = CHR '':'' then Some [] else None)"

section \<open>HTTP submit (package handlers)\<close>

record 'f ChatRequest =
  req_SessionID :: string
  req_Message :: string
  req_UserID :: string
  req_AIProvider :: string
  req_Model :: string
  req_Context :: "(string, 'f json_value) fmap option"

record 'f WorkflowRequest =
  wf_MessageID :: string
  wf_SessionID :: string
  wf_UserID :: string
  wf_Message :: string
  wf_Context :: "(string, 'f json_value) fmap option"
  wf_Timestamp :: time
  wf_CorrelationID :: string

text \<open>The status codes of \<open>net/http\<close> that \<open>HandleChat\<close> uses.\<close>

definition StatusAccepted :: nat where "StatusAccepted = 202"
definition StatusBadRequest :: nat where "StatusBadRequest = 400"
definition StatusMethodNotAllowed :: nat where "StatusMethodNotAllowed = 405"
definition StatusInternalServerError :: nat where "StatusInternalServerError = 500"
definition StatusServiceUnavailable :: nat where "StatusServiceUnavailable = 503"

text \<open>
  \<open>HandleChat\<close>.  The request is its method and what the JSON decoder made of the body
  (\<open>None\<close>: the decoder failed); \<open>messageID\<close> and \<open>correlationID\<close> are the two results of
  \<open>uuid.New().String()\<close>; \<open>publish\<close> is \<open>PublishWorkflowRequest\<close> of the bus client, which
  returns whether it failed.  The result is the status written and the list of
  envelopes handed to \<open>publish\<close>, one per call.
\<close>

definition HandleChat ::
  "string \<Rightarrow> 'f ChatRequest option \<Rightarrow> string \<Rightarrow> string \<Rightarrow> time
     \<Rightarrow> ('f WorkflowRequest \<Rightarrow> bool) \<Rightarrow> nat \<times> 'f WorkflowRequest list" where
  "HandleChat method body messageID correlationID now publish =
     (if method \<noteq> ''POST'' then (StatusMethodNotAllowed, [])
      else
        (case body of
           None \<Rightarrow> (StatusBadRequest, [])
         | Some req \<Rightarrow>
             if req_SessionID req = [] \<or> req_Message req = [] \<or> req_UserID req = []
             then (StatusBadRequest, [])
             else
               let workflowReq =
                     \<lparr> wf_MessageID = messageID,
                       wf_SessionID = req_SessionID req,
                       wf_UserID = req_UserID req,
                       wf_Message = req_Message req,
                       wf_Context = req_Context req,
                       wf_Timestamp = now,
                       wf_CorrelationID = correlationID \<rparr>;
                   workflowReq' =
                     (if req_AIProvider req \<noteq> [] then
                        let ctx = (case wf_Context workflowReq of
                                     None \<Rightarrow> fmempty
                                   | Some c \<Rightarrow> c)
                        in workflowReq\<lparr> wf_Context :=
                             Some (fmupd ''model'' (JString (req_Model req))
                                    (fmupd ''ai_provider'' (JString (req_AIProvider req)) ctx)) \<rparr>
                      else workflowReq)
               in if publish workflowReq' then (StatusInternalServerError, [workflowReq'])
                  else (StatusAccepted, [workflowReq'])))"

section \<open>Stream registry (package sse)\<close>

text \<open>
  Both indices of the SSE manager hold pointers to the same \<open>Connection\<close> objects, and
  \<open>writeEvent\<close> updates \<open>LastSent\<close> through such a pointer.  The model keeps the objects
  in a store: a pointer is a natural number, \<open>heap\<close> maps it to the object, and
  \<open>next_ptr\<close> is the address the next \<open>&Connection{...}\<close> gets.  The transport handles
  (\<open>Writer\<close>, \<open>Flusher\<close>) are left out; \<open>Done_closed\<close> tells whether the channel \<open>Done\<close> has
  been closed.
\<close>

type_synonym ptr = nat

record Connection =
  conn_ID :: string
  conn_SessionID :: string
  conn_UserID :: string
  Done_closed :: bool
  conn_CreatedAt :: time
  LastSent :: time
  ClientIP :: string
  UserAgent :: string

record sse_Manager =
  connections :: "(string, ptr) fmap"
  sessions :: "(string, ptr list) fmap"
  heap :: "ptr \<Rightarrow> Connection"
  next_ptr :: ptr

datatype sse_error =
    StreamingNotSupported
  | ConnectionNotFound
  | WriteFailed
  | NoConnections

definition sse_NewManager :: "(ptr \<Rightarrow> Connection) \<Rightarrow> sse_Manager" where
  "sse_NewManager h =
     \<lparr> connections = fmempty, sessions = fmempty, heap = h, next_ptr = 0 \<rparr>"

text \<open>Reading \<open>m.sessions[sessionID]\<close>: a missing key gives the nil slice.\<close>

definition session_conns :: "sse_Manager \<Rightarrow> string \<Rightarrow> ptr list" where
  "session_conns m sessionID =
     (case fmlookup (sessions m) sessionID of None \<Rightarrow> [] | Some conns \<Rightarrow> conns)"

text \<open>
  \<open>writeEvent\<close> for an event whose payload marshals: \<open>write_ok\<close> tells whether
  \<open>fmt.Fprint\<close> on the connection's writer succeeded.
\<close>

definition writeEvent :: "sse_Manager \<Rightarrow> ptr \<Rightarrow> bool \<Rightarrow> time \<Rightarrow> sse_error option \<times> sse_Manager" where
  "writeEvent m conn write_ok now =
     (if \<not> write_ok then (Some WriteFailed, m)
      else (None, m\<lparr> heap := (heap m)(conn := (heap m conn)\<lparr> LastSent := now \<rparr>) \<rparr>))"

definition SendEvent :: "sse_Manager \<Rightarrow> string \<Rightarrow> bool \<Rightarrow> time \<Rightarrow> sse_error option \<times> sse_Manager" where
  "SendEvent m connectionID write_ok now =
     (case fmlookup (connections m) connectionID of
        None \<Rightarrow> (Some ConnectionNotFound, m)
      | Some conn \<Rightarrow> writeEvent m conn write_ok now)"

text \<open>
  \<open>AddConnection\<close>: \<open>flusher_ok\<close> is the outcome of the type assertion
  \<open>w.(http.Flusher)\<close>, \<open>newID\<close> the result of \<open>uuid.New().String()\<close>, \<open>clientIP\<close> and
  \<open>userAgent\<close> come from the request.  The error of the initial \<open>connected\<close> event is
  dropped, as in the source.
\<close>

definition AddConnection ::
  "sse_Manager \<Rightarrow> string \<Rightarrow> string \<Rightarrow> string \<Rightarrow> bool \<Rightarrow> string \<Rightarrow> string \<Rightarrow> time \<Rightarrow> bool
     \<Rightarrow> (sse_error + ptr) \<times> sse_Manager" where
  "AddConnection m newID sessionID userID flusher_ok clientIP userAgent now write_ok =
     (if \<not> flusher_ok then (Inl StreamingNotSupported, m)
      else
        let conn = next_ptr m;
            m1 = m\<lparr> heap := (heap m)(conn :=
                        \<lparr> conn_ID = newID,
                          conn_SessionID = sessionID,
                          conn_UserID = userID,
                          Done_closed = False,
                          conn_CreatedAt = now,
                          LastSent = now,
                          ClientIP = clientIP,
                          UserAgent = userAgent \<rparr>),
                    next_ptr := Suc conn \<rparr>;
            m2 = m1\<lparr> connections := fmupd newID conn (connections m1) \<rparr>;
            m3 = m2\<lparr> sessions := fmupd sessionID (session_conns m2 sessionID @ [conn]) (sessions m2) \<rparr>;
            m4 = snd (SendEvent m3 newID write_ok now)
        in (Inr conn, m4))"

text \<open>
  The loop of \<open>RemoveConnection\<close> over the session's slice: the first element whose
  \<open>ID\<close> is \<open>connectionID\<close> is cut out (\<open>append(conns[:i], conns[i+1:]...)\<close>) and the loop
  breaks; with no such element the slice stays.
\<close>

fun remove_first :: "(ptr \<Rightarrow> Connection) \<Rightarrow> string \<Rightarrow> ptr list \<Rightarrow> ptr list" where
  "remove_first h connectionID [] = []"
| "remove_first h connectionID (c # conns) =
     (if conn_ID (h c) = connectionID then conns
      else c # remove_first h connectionID conns)"

definition RemoveConnection :: "sse_Manager \<Rightarrow> string \<Rightarrow> sse_Manager" where
  "RemoveConnection m connectionID =
     (case fmlookup (connections m) connectionID of
        None \<Rightarrow> m
      | Some conn \<Rightarrow>
          let m1 = m\<lparr> connections := fmdrop connectionID (connections m) \<rparr>;
              sid = conn_SessionID (heap m1 conn);
              m2 = (case fmlookup (sessions m1) sid of
                      None \<Rightarrow> m1
                    | Some conns \<Rightarrow>
                        let m' = m1\<lparr> sessions :=
                                   fmupd sid (remove_first (heap m1) connectionID conns) (sessions m1) \<rparr>
                        in if length (session_conns m' sid) = 0
                           then m'\<lparr> sessions := fmdrop sid (sessions m') \<rparr>
                           else m')
          in m2\<lparr> heap := (heap m2)(conn := (heap m2 conn)\<lparr> Done_closed := True \<rparr>) \<rparr>)"

definition HasActiveConnections :: "sse_Manager \<Rightarrow> string \<Rightarrow> bool" where
  "HasActiveConnections m sessionID = (length (session_conns m sessionID) > 0)"

definition GetConnectionCount :: "sse_Manager \<Rightarrow> int" where
  "GetConnectionCount m = len (connections m)"

definition GetSessionCount :: "sse_Manager \<Rightarrow> int" where
  "GetSessionCount m = len (sessions m)"

section \<open>Notions of the specification\<close>

text \<open>Ingesting fragments one by one; each arrives with the time of its \<open>AddChunk\<close> call.\<close>

fun AddChunks :: "'f Manager \<Rightarrow> (time \<times> 'f ResponseChunk) list \<Rightarrow> 'f Manager" where
  "AddChunks m [] = m"
| "AddChunks m ((now, chunk) # rest) = AddChunks (snd (AddChunk m now chunk)) rest"

text \<open>
  \<open>fragments_from messageID i frags\<close>: the list holds the fragments of one message with
  the sequences \<open>i, i + 1, \<dots>\<close> in this order, and \<open>is_final\<close> is set on the last one
  and on no other.
\<close>

fun fragments_from :: "string \<Rightarrow> int \<Rightarrow> 'f ResponseChunk list \<Rightarrow> bool" where
  "fragments_from messageID i [] = False"
| "fragments_from messageID i [c] = (MessageID c = messageID \<and> ChunkID c = i \<and> IsFinal c)"
| "fragments_from messageID i (c # c' # cs) =
     (MessageID c = messageID \<and> ChunkID c = i \<and> \<not> IsFinal c
      \<and> fragments_from messageID (i + 1) (c' # cs))"

text \<open>The payloads of the fragments of type \<open>content\<close>, concatenated in list order.\<close>

definition content_of :: "'f ResponseChunk list \<Rightarrow> string" where
  "content_of frags = concat (map Chunk (filter (\<lambda>c. ChunkType c = ''content'') frags))"

text \<open>The stored fragments with sequences in \<open>[i, final]\<close>, in ascending sequence order.\<close>

definition stored_between :: "(int, 'f ResponseChunk) fmap \<Rightarrow> int \<Rightarrow> int \<Rightarrow> 'f ResponseChunk list" where
  "stored_between chunks i final = List.map_filter (fmlookup chunks) [i..final]"

text \<open>Dense coverage: every sequence in \<open>[0, final_seq]\<close> is present.\<close>

definition dense_coverage :: "'f ChunkBuffer \<Rightarrow> bool" where
  "dense_coverage b = list_all (\<lambda>k. fmlookup (Chunks b) k \<noteq> None) [0..FinalChunkID b]"

definition finalizable :: "'f Manager \<Rightarrow> string \<Rightarrow> bool" where
  "finalizable m messageID =
     (case fmlookup (buffers m) messageID of
        None \<Rightarrow> False
      | Some b \<Rightarrow> buf_IsFinal b \<and> dense_coverage b)"

text \<open>The first sequence in \<open>[0, final_seq]\<close> that is missing, if any.\<close>

definition first_missing :: "'f ChunkBuffer \<Rightarrow> int option" where
  "first_missing b = List.find (\<lambda>k. fmlookup (Chunks b) k = None) [0..FinalChunkID b]"

text \<open>
  The fragments with \<open>is_final\<close> among the stored sequences \<open>[0, final_seq]\<close>, in sequence
  order.  The data model's fragment invariant makes this list a single fragment.
\<close>

definition final_fragments :: "'f ChunkBuffer \<Rightarrow> 'f ResponseChunk list" where
  "final_fragments b = filter IsFinal (stored_between (Chunks b) 0 (FinalChunkID b))"

text \<open>The numeric \<open>tokens_used\<close> of a metadata bag, converted; \<open>0\<close> without bag or number.\<close>

definition token_count :: "('f \<Rightarrow> int) \<Rightarrow> (string, 'f json_value) fmap option \<Rightarrow> int" where
  "token_count to_int bag =
     (case bag of
        None \<Rightarrow> 0
      | Some md \<Rightarrow> (case tokens_used md of None \<Rightarrow> 0 | Some tokens \<Rightarrow> to_int tokens))"

text \<open>The \<open>Content\<close> of the message \<open>FinalizeMessage\<close> returns, \<open>None\<close> when it returns an error.\<close>

definition finalize_content :: "('f \<Rightarrow> int) \<Rightarrow> 'f Manager \<Rightarrow> string \<Rightarrow> time \<Rightarrow> string option" where
  "finalize_content to_int m messageID now =
     (case fst (FinalizeMessage to_int m messageID now) of
        Inl e \<Rightarrow> None
      | Inr msg \<Rightarrow> Some (Content msg))"

text \<open>The payload stored for a sequence of a message, if any.\<close>

definition stored_payload :: "'f Manager \<Rightarrow> string \<Rightarrow> int \<Rightarrow> string option" where
  "stored_payload m messageID seq =
     (case fmlookup (buffers m) messageID of
        None \<Rightarrow> None
      | Some b \<Rightarrow> map_option Chunk (fmlookup (Chunks b) seq))"

text \<open>A property of buffers holds for every live buffer of the manager.\<close>

definition live_buffers :: "('f ChunkBuffer \<Rightarrow> bool) \<Rightarrow> 'f Manager \<Rightarrow> bool" where
  "live_buffers P m =
     fBall (fmdom (buffers m))
       (\<lambda>messageID. case fmlookup (buffers m) messageID of None \<Rightarrow> True | Some b \<Rightarrow> P b)"

text \<open>
  The buffer invariant as the specification words it: \<open>next_to_emit \<le> max_seen + 1\<close>,
  \<open>final_seq \<ge> max_seen\<close> once \<open>final_seen\<close>, and no stored fragment has a sequence below
  \<open>next_to_emit\<close>.
\<close>

definition spec_invariant :: "'f ChunkBuffer \<Rightarrow> bool" where
  "spec_invariant b =
     (NextToSend b \<le> MaxChunkID b + 1
      \<and> (buf_IsFinal b \<longrightarrow> FinalChunkID b \<ge> MaxChunkID b)
      \<and> fBall (fmdom (Chunks b)) (\<lambda>k. NextToSend b \<le> k))"

text \<open>
  What the code maintains instead of the third part: the emitted fragments stay in the
  map (finalize reads them), so every sequence in \<open>[0, next_to_emit)\<close> is stored.  The
  bounds \<open>0 \<le> next_to_emit\<close>, \<open>0 \<le> max_seen\<close> and "no stored sequence exceeds \<open>max_seen\<close>"
  are what makes \<open>next_to_emit \<le> max_seen + 1\<close> inductive.
\<close>

definition emitted_retained :: "'f ChunkBuffer \<Rightarrow> bool" where
  "emitted_retained b = list_all (\<lambda>k. fmlookup (Chunks b) k \<noteq> None) [0..NextToSend b - 1]"

definition buffer_invariant :: "'f ChunkBuffer \<Rightarrow> bool" where
  "buffer_invariant b =
     (0 \<le> NextToSend b \<and> 0 \<le> MaxChunkID b
      \<and> NextToSend b \<le> MaxChunkID b + 1
      \<and> fBall (fmdom (Chunks b)) (\<lambda>k. k \<le> MaxChunkID b)
      \<and> emitted_retained b)"

definition final_invariant :: "'f ChunkBuffer \<Rightarrow> bool" where
  "final_invariant b = (buf_IsFinal b \<longrightarrow> FinalChunkID b \<ge> MaxChunkID b)"

text \<open>
  The arriving fragment respects the data model's fragment invariant with respect to
  what its buffer has seen: its sequence is not negative, a fragment with \<open>is_final\<close>
  carries a sequence no smaller than any seen, and a later fragment does not exceed
  \<open>final_seq\<close>.
\<close>

definition respects_final :: "'f Manager \<Rightarrow> 'f ResponseChunk \<Rightarrow> bool" where
  "respects_final m chunk =
     (0 \<le> ChunkID chunk \<and>
      (case fmlookup (buffers m) (MessageID chunk) of
         None \<Rightarrow> True
       | Some b \<Rightarrow>
           (if IsFinal chunk then MaxChunkID b \<le> ChunkID chunk
            else if buf_IsFinal b then ChunkID chunk \<le> FinalChunkID b
            else True)))"

text \<open>
  Two notions used to compare arrival orders.  A buffer \<open>holds_only\<close> fragments of the
  list \<open>frags\<close> (the fragment with sequence \<open>k\<close> being \<open>frags ! k\<close>) when each stored entry
  is the list's fragment of that sequence and \<open>final_seen\<close> tells whether the last one is
  stored.  The \<open>shape\<close> of a manager for a message is what the two limits of \<open>AddChunk\<close>
  look at: the number of buffers and the number of fragments stored for the message;
  \<open>shape_step\<close> is the effect on it of one \<open>AddChunk\<close> with a sequence not yet stored.
\<close>

definition holds_only :: "'f ResponseChunk list \<Rightarrow> 'f ChunkBuffer \<Rightarrow> bool" where
  "holds_only frags b =
     (fmpred (\<lambda>k c. 0 \<le> k \<and> k < int (length frags) \<and> c = frags ! nat k) (Chunks b)
      \<and> buf_IsFinal b = (fmlookup (Chunks b) (int (length frags) - 1) \<noteq> None)
      \<and> (buf_IsFinal b \<longrightarrow> FinalChunkID b = int (length frags) - 1))"

definition shape :: "'f Manager \<Rightarrow> string \<Rightarrow> int \<times> int option" where
  "shape m messageID =
     (len (buffers m),
      (case fmlookup (buffers m) messageID of
         None \<Rightarrow> None
       | Some b \<Rightarrow> Some (len (Chunks b))))"

definition shape_step :: "int \<Rightarrow> int \<Rightarrow> int \<times> int option \<Rightarrow> int \<times> int option" where
  "shape_step maxBuffers maxChunks sh =
     (case sh of (nb, oc) \<Rightarrow>
        if nb \<ge> maxBuffers then (nb, oc)
        else
          (case oc of
             None \<Rightarrow> (nb + 1, Some (if maxChunks \<le> 0 then 0 else 1))
           | Some n \<Rightarrow> (nb, Some (if maxChunks \<le> n then n else n + 1))))"

text \<open>
  \<open>held\<close>: the buffer of the message, if there is one, holds only fragments of the list.
  \<open>fresh\<close>: the sequence is not stored for the message.
\<close>

definition held :: "'f ResponseChunk list \<Rightarrow> 'f Manager \<Rightarrow> string \<Rightarrow> bool" where
  "held frags m messageID =
     (case fmlookup (buffers m) messageID of None \<Rightarrow> True | Some b \<Rightarrow> holds_only frags b)"

definition fresh :: "'f Manager \<Rightarrow> string \<Rightarrow> int \<Rightarrow> bool" where
  "fresh m messageID seq =
     (case fmlookup (buffers m) messageID of
        None \<Rightarrow> True
      | Some b \<Rightarrow> fmlookup (Chunks b) seq = None)"

text \<open>
  A call of the SSE manager with everything the environment contributes to it, and a
  run of calls.  \<open>ids_fresh\<close> tells that every id drawn by \<open>uuid.New()\<close> during the run was
  not registered at that moment.
\<close>

datatype sse_call =
    CallAdd string string string bool string string time bool
  | CallRemove string

fun apply_call :: "sse_Manager \<Rightarrow> sse_call \<Rightarrow> sse_Manager" where
  "apply_call m (CallAdd newID sessionID userID flusher_ok clientIP userAgent now write_ok) =
     snd (AddConnection m newID sessionID userID flusher_ok clientIP userAgent now write_ok)"
| "apply_call m (CallRemove connectionID) = RemoveConnection m connectionID"

fun run_calls :: "sse_Manager \<Rightarrow> sse_call list \<Rightarrow> sse_Manager" where
  "run_calls m [] = m"
| "run_calls m (c # cs) = run_calls (apply_call m c) cs"

fun id_fresh :: "sse_Manager \<Rightarrow> sse_call \<Rightarrow> bool" where
  "id_fresh m (CallAdd newID sessionID userID flusher_ok clientIP userAgent now write_ok) =
     (fmlookup (connections m) newID = None)"
| "id_fresh m (CallRemove connectionID) = True"

fun ids_fresh :: "sse_Manager \<Rightarrow> sse_call list \<Rightarrow> bool" where
  "ids_fresh m [] = True"
| "ids_fresh m (c # cs) = (id_fresh m c \<and> ids_fresh (apply_call m c) cs)"

text \<open>The sum of the lengths of the per-session slices.\<close>

definition total_len :: "(string, ptr list) fmap \<Rightarrow> nat" where
  "total_len ss = (\<Sum>s \<in> fset (fmdom ss). length (case fmlookup ss s of None \<Rightarrow> [] | Some l \<Rightarrow> l))"

text \<open>
  The invariant that makes the agreement of the two indices inductive: a registered
  pointer is stored under the id of its object, was allocated, and occurs once in the
  slice of its object's session; every pointer in a slice is registered and belongs to
  that session; no slice is empty or repeats a pointer; the sizes agree.
\<close>

definition sse_invariant :: "sse_Manager \<Rightarrow> bool" where
  "sse_invariant m =
     ((\<forall>c p. fmlookup (connections m) c = Some p \<longrightarrow>
          conn_ID (heap m p) = c \<and> p < next_ptr m
          \<and> p \<in> set (session_conns m (conn_SessionID (heap m p))))
      \<and> (\<forall>s p. p \<in> set (session_conns m s) \<longrightarrow>
            conn_SessionID (heap m p) = s
            \<and> fmlookup (connections m) (conn_ID (heap m p)) = Some p)
      \<and> (\<forall>s. distinct (session_conns m s) \<and> fmlookup (sessions m) s \<noteq> Some [])
      \<and> len (connections m) = int (total_len (sessions m)))"

section \<open>Example inputs\<close>

definition ex_chunk :: "string \<Rightarrow> int \<Rightarrow> string \<Rightarrow> bool \<Rightarrow> int ResponseChunk" where
  "ex_chunk messageID seq payload final =
     \<lparr> SessionID = ''S1'', MessageID = messageID, ChunkID = seq, Chunk = payload,
       ChunkType = ''content'', IsFinal = final, Metadata = None, Timestamp = 0,
       CorrelationID = ''c-1'' \<rparr>"

text \<open>A manager with room for one buffer, after the first fragment of message \<open>M1\<close>.\<close>

definition ex_full :: "int Manager" where
  "ex_full = snd (AddChunk (NewManager 1 10 300 30 30) 1 (ex_chunk ''M1'' 0 ''a'' False))"

text \<open>
  Fragments \<open>0\<close> and \<open>2\<close> (final) of \<open>M1\<close> arrived at times \<open>100\<close> and \<open>101\<close>, fragment \<open>1\<close>
  did not; \<open>max_buffer_age\<close> is \<open>300\<close> and \<open>missing_chunk_timeout\<close> is \<open>30\<close>.
\<close>

definition ex_gap :: "int Manager" where
  "ex_gap = AddChunks (NewManager 10 10 300 30 30)
              [(100, ex_chunk ''M1'' 0 ''a'' False), (101, ex_chunk ''M1'' 2 ''c'' True)]"

definition ex_req :: "int ChatRequest" where
  "ex_req = \<lparr> req_SessionID = ''S1'', req_Message = ''hi'', req_UserID = ''U1'',
              req_AIProvider = [], req_Model = [], req_Context = None \<rparr>"

text \<open>Fragments \<open>0\<close>, \<open>1\<close> and \<open>3\<close> of \<open>M1\<close> are stored, nothing has been emitted.\<close>

definition ex_prefix :: "int Manager" where
  "ex_prefix = AddChunks (NewManager 10 10 300 30 30)
                 [(1, ex_chunk ''M1'' 3 ''d'' False), (2, ex_chunk ''M1'' 0 ''a'' False),
                  (3, ex_chunk ''M1'' 1 ''b'' False)]"

text \<open>
  The three fragments of \<open>M1\<close> arrived out of order; fragment \<open>1\<close> is of type \<open>system\<close>, the
  final fragment \<open>2\<close> carries \<open>tokens_used = 42\<close>.
\<close>

definition ex_done :: "int Manager" where
  "ex_done = AddChunks (NewManager 10 10 300 30 30)
     [(1, (ex_chunk ''M1'' 2 ''c'' True)\<lparr> Metadata := Some (fmupd ''tokens_used'' (JNumber 42) fmempty) \<rparr>),
      (2, ex_chunk ''M1'' 0 ''a'' False),
      (3, (ex_chunk ''M1'' 1 ''b'' False)\<lparr> ChunkType := ''system'' \<rparr>)]"

text \<open>
  Two fragments of \<open>M1\<close> both carry \<open>is_final\<close>: sequence \<open>0\<close> with \<open>tokens_used = 7\<close> in its
  bag, then sequence \<open>1\<close> with an empty bag.
\<close>

definition ex_two_finals :: "int Manager" where
  "ex_two_finals = AddChunks (NewManager 10 10 300 30 30)
     [(1, (ex_chunk ''M1'' 0 ''a'' True)\<lparr> Metadata := Some (fmupd ''tokens_used'' (JNumber 7) fmempty) \<rparr>),
      (2, (ex_chunk ''M1'' 1 ''b'' True)\<lparr> Metadata := Some fmempty \<rparr>)]"

text \<open>A manager whose buffers may hold one fragment each, after fragment \<open>0\<close> of \<open>M1\<close>.\<close>

definition ex_capped :: "int Manager" where
  "ex_capped = snd (AddChunk (NewManager 10 1 300 30 30) 1 (ex_chunk ''M1'' 0 ''a'' False))"

text \<open>Fragment \<open>0\<close> of \<open>M1\<close> is stored and not yet emitted.\<close>

definition ex_one :: "int Manager" where
  "ex_one = snd (AddChunk (NewManager 10 10 300 30 30) 1 (ex_chunk ''M1'' 0 ''a'' False))"

text \<open>Three fragments of \<open>M2\<close>, sequences \<open>0, 1, 2\<close>, the last one final.\<close>

definition ex_frags :: "int ResponseChunk list" where
  "ex_frags = [ex_chunk ''M2'' 0 ''x'' False, ex_chunk ''M2'' 1 ''y'' False,
               ex_chunk ''M2'' 2 ''z'' True]"

text \<open>An unused store, and a run: three streams open on two sessions, one closes.\<close>

definition ex_heap :: "ptr \<Rightarrow> Connection" where
  "ex_heap p = \<lparr> conn_ID = [], conn_SessionID = [], conn_UserID = [], Done_closed = False,
                 conn_CreatedAt = 0, LastSent = 0, ClientIP = [], UserAgent = [] \<rparr>"

definition ex_calls :: "sse_call list" where
  "ex_calls =
     [CallAdd ''c1'' ''S1'' ''U1'' True ''10.0.0.1'' ''curl'' 1 True,
      CallAdd ''c2'' ''S1'' ''U1'' True ''10.0.0.2'' ''curl'' 2 False,
      CallAdd ''c3'' ''S2'' ''U2'' True ''10.0.0.3'' ''curl'' 3 True,
      CallRemove ''c1'',
      CallRemove ''zz'']"

section \<open>Basic facts\<close>

declare GetNextChunks_loop.simps [simp del]
declare FinalizeMessage_verify.simps [simp del]
declare FinalizeMessage_reconstruct.simps [simp del]
declare GetState_missing.simps [simp del]

lemma len_fmempty [simp]: "len fmempty = 0"
  by (simp add: len_def)

lemma len_nonneg [simp]: "0 \<le> len m"
  by (simp add: len_def)

lemma len_fmupd:
  "len (fmupd k v m) = (if fmlookup m k = None then len m + 1 else len m)"
  by (auto simp: len_def fcard_finsert_if fmdom_notI dest: fmdom_notD)

lemmas buffer_eval =
  ex_chunk_def NewManager_def AddChunk_def len_fmupd new_buffer_def store_chunk_def Let_def

section \<open>Draining the contiguous prefix\<close>

lemma GetNextChunks_loop_spec:
  "\<exists>cs. GetNextChunks_loop chunks n acc = (acc @ cs, n + int (length cs))
      \<and> (\<forall>i < length cs. fmlookup chunks (n + int i) = Some (cs ! i))
      \<and> (\<forall>i. Suc i < length cs \<longrightarrow> \<not> IsFinal (cs ! i))
      \<and> ((cs \<noteq> [] \<and> IsFinal (last cs)) \<or> fmlookup chunks (n + int (length cs)) = None)"
proof (induction chunks n acc rule: GetNextChunks_loop.induct)
  case (1 chunks n acc)
  show ?case
  proof (cases "fmlookup chunks n")
    case None
    then have "GetNextChunks_loop chunks n acc = (acc @ [], n + int (length ([]::'a ResponseChunk list)))"
      by (simp add: GetNextChunks_loop.simps)
    with None show ?thesis by (intro exI[of _ "[]"]) simp
  next
    case (Some chunk)
    show ?thesis
    proof (cases "IsFinal chunk")
      case True
      with Some have "GetNextChunks_loop chunks n acc = (acc @ [chunk], n + int (length [chunk]))"
        by (simp add: GetNextChunks_loop.simps)
      with Some True show ?thesis by (intro exI[of _ "[chunk]"]) simp
    next
      case False
      from "1.IH"[OF Some False] obtain cs where
        eq: "GetNextChunks_loop chunks (n + 1) (acc @ [chunk]) = ((acc @ [chunk]) @ cs, n + 1 + int (length cs))"
        and look: "\<forall>i < length cs. fmlookup chunks (n + 1 + int i) = Some (cs ! i)"
        and nofin: "\<forall>i. Suc i < length cs \<longrightarrow> \<not> IsFinal (cs ! i)"
        and stop: "(cs \<noteq> [] \<and> IsFinal (last cs)) \<or> fmlookup chunks (n + 1 + int (length cs)) = None"
        by blast
      have a: "GetNextChunks_loop chunks n acc = (acc @ (chunk # cs), n + int (length (chunk # cs)))"
        using Some False eq by (simp add: GetNextChunks_loop.simps[of chunks n acc])
      have b: "\<forall>i < length (chunk # cs). fmlookup chunks (n + int i) = Some ((chunk # cs) ! i)"
      proof (intro allI impI)
        fix i assume "i < length (chunk # cs)"
        then show "fmlookup chunks (n + int i) = Some ((chunk # cs) ! i)"
          using Some look by (cases i) (auto simp: add.assoc)
      qed
      have c: "\<forall>i. Suc i < length (chunk # cs) \<longrightarrow> \<not> IsFinal ((chunk # cs) ! i)"
      proof (intro allI impI)
        fix i assume "Suc i < length (chunk # cs)"
        then show "\<not> IsFinal ((chunk # cs) ! i)"
          using False nofin by (cases i) auto
      qed
      have d: "((chunk # cs) \<noteq> [] \<and> IsFinal (last (chunk # cs))) \<or> fmlookup chunks (n + int (length (chunk # cs))) = None"
        using stop by (auto simp: add.assoc)
      from a b c d show ?thesis by blast
    qed
  qed
qed

text \<open>What \<open>GetNextChunks\<close> returns for a buffer of the manager, and the state it leaves.\<close>

lemma GetNextChunks_advance:
  assumes "fmlookup (buffers m) messageID = Some buffer"
  shows "\<exists>cs. GetNextChunks m messageID =
           (Inr (cs, buf_IsFinal buffer \<and> NextToSend buffer + int (length cs) > FinalChunkID buffer),
            m\<lparr> buffers := fmupd messageID
                  (buffer\<lparr> NextToSend := NextToSend buffer + int (length cs) \<rparr>) (buffers m) \<rparr>)
      \<and> (\<forall>i < length cs. fmlookup (Chunks buffer) (NextToSend buffer + int i) = Some (cs ! i))
      \<and> (\<forall>i. Suc i < length cs \<longrightarrow> \<not> IsFinal (cs ! i))
      \<and> ((cs \<noteq> [] \<and> IsFinal (last cs))
           \<or> fmlookup (Chunks buffer) (NextToSend buffer + int (length cs)) = None)"
proof -
  from GetNextChunks_loop_spec[of "Chunks buffer" "NextToSend buffer" "[]"]
  obtain cs where
    eq: "GetNextChunks_loop (Chunks buffer) (NextToSend buffer) [] = (cs, NextToSend buffer + int (length cs))"
    and rest: "(\<forall>i < length cs. fmlookup (Chunks buffer) (NextToSend buffer + int i) = Some (cs ! i))"
      "(\<forall>i. Suc i < length cs \<longrightarrow> \<not> IsFinal (cs ! i))"
      "((cs \<noteq> [] \<and> IsFinal (last cs))
           \<or> fmlookup (Chunks buffer) (NextToSend buffer + int (length cs)) = None)"
    by auto
  have "GetNextChunks m messageID =
           (Inr (cs, buf_IsFinal buffer \<and> NextToSend buffer + int (length cs) > FinalChunkID buffer),
            m\<lparr> buffers := fmupd messageID
                  (buffer\<lparr> NextToSend := NextToSend buffer + int (length cs) \<rparr>) (buffers m) \<rparr>)"
    using assms eq by (simp add: GetNextChunks_def)
  with rest show ?thesis by blast
qed

text \<open>
  Claim C2.  For a buffer of the manager, \<open>GetNextChunks\<close> returns the fragments stored at
  the consecutive sequences \<open>next_to_emit, next_to_emit + 1, \<dots>\<close>: the list stops at the
  first gap or right after a fragment with \<open>is_final\<close> (no earlier fragment of the list
  has \<open>is_final\<close>); \<open>next_to_emit\<close> is advanced by the length of the list and nothing
  else in the manager changes; the flag returned is
  \<open>final_seen \<and> next_to_emit > final_seq\<close>, read after the advance.
\<close>

theorem GetNextChunks_contiguous_prefix:
  assumes "fmlookup (buffers m) messageID = Some buffer"
  shows "\<exists>cs. GetNextChunks m messageID =
           (Inr (cs, buf_IsFinal buffer \<and> NextToSend buffer + int (length cs) > FinalChunkID buffer),
            m\<lparr> buffers := fmupd messageID
                  (buffer\<lparr> NextToSend := NextToSend buffer + int (length cs) \<rparr>) (buffers m) \<rparr>)
      \<and> (\<forall>i < length cs. fmlookup (Chunks buffer) (NextToSend buffer + int i) = Some (cs ! i))
      \<and> (\<forall>i. Suc i < length cs \<longrightarrow> \<not> IsFinal (cs ! i))
      \<and> ((cs \<noteq> [] \<and> IsFinal (last cs))
           \<or> fmlookup (Chunks buffer) (NextToSend buffer + int (length cs)) = None)"
  using assms by (rule GetNextChunks_advance)

theorem GetNextChunks_contiguous_prefix_witness:
  "fmlookup (buffers ex_prefix) ''M1'' \<noteq> None
   \<and> fst (GetNextChunks ex_prefix ''M1'') =
       Inr ([ex_chunk ''M1'' 0 ''a'' False, ex_chunk ''M1'' 1 ''b'' False], False)
   \<and> map_option NextToSend (fmlookup (buffers (snd (GetNextChunks ex_prefix ''M1''))) ''M1'') = Some 2"
proof -
  let ?b = "\<lparr> buf_SessionID = ''S1'', buf_MessageID = ''M1'',
      Chunks = fmupd 1 (ex_chunk ''M1'' 1 ''b'' False) (fmupd 0 (ex_chunk ''M1'' 0 ''a'' False)
                 (fmupd 3 (ex_chunk ''M1'' 3 ''d'' False) fmempty)),
      MaxChunkID = 3, NextToSend = 0, buf_IsFinal = False, FinalChunkID = 0,
      CreatedAt = 1, UpdatedAt = 3 \<rparr>"
  have look: "fmlookup (buffers ex_prefix) ''M1'' = Some ?b"
    by (simp add: ex_prefix_def buffer_eval)
  note inst = GetNextChunks_contiguous_prefix[OF look]
  have val: ?thesis
    using look by (simp add: GetNextChunks_def GetNextChunks_loop.simps ex_chunk_def)
  show ?thesis
    by (rule conjunct1[OF conjI[OF val inst]])
qed

section \<open>Manager capacity\<close>

text \<open>
  Claim C5.  The manager \<open>ex_full\<close> has \<open>max_buffers = 1\<close> and already holds the buffer of
  message \<open>M1\<close>.  The next fragment of \<open>M1\<close> is rejected with the capacity error although
  its buffer exists: the limit is tested before the buffer is looked up.
\<close>

theorem AddChunk_rejects_existing_buffer_at_capacity:
  "fmlookup (buffers ex_full) ''M1'' \<noteq> None
   \<and> len (buffers ex_full) = maxBuffersPerPod ex_full
   \<and> AddChunk ex_full 2 (ex_chunk ''M1'' 1 ''b'' False) = (Some BufferLimitReached, ex_full)"
  by (simp add: ex_full_def buffer_eval)

section \<open>The sweeper\<close>

text \<open>
  A pass of the sweeper evicts every buffer that has seen \<open>is_final\<close>, whatever its age,
  and keeps a buffer without \<open>is_final\<close> that was updated within \<open>max_buffer_age\<close>.
\<close>

lemma cleanup_evicts_final:
  assumes "fmlookup (buffers m) messageID = Some b" "buf_IsFinal b"
  shows "fmlookup (buffers (cleanup m now)) messageID = None"
proof -
  have "messageID |\<in>| staleBuffers m now"
    using assms by (simp add: staleBuffers_def fmdomI)
  then show ?thesis by (simp add: cleanup_def)
qed

lemma cleanup_keeps_recent:
  assumes "fmlookup (buffers m) messageID = Some b" "\<not> buf_IsFinal b"
    and "now - maxBufferAge m \<le> UpdatedAt b"
  shows "fmlookup (buffers (cleanup m now)) messageID = Some b"
proof -
  have "messageID |\<notin>| staleBuffers m now"
    using assms by (simp add: staleBuffers_def)
  then show ?thesis using assms(1) by (simp add: cleanup_def)
qed

text \<open>
  Claim C6.  In \<open>ex_gap\<close> the buffer of \<open>M1\<close> has seen \<open>is_final\<close> at sequence \<open>2\<close>, misses
  sequence \<open>1\<close> and was updated at time \<open>101\<close>.  A sweeper pass at time \<open>102\<close>, one time
  unit later and far inside the grace of \<open>missing_chunk_timeout = 30\<close>, evicts it:
  \<open>cleanup\<close> removes every buffer with \<open>IsFinal\<close> and never reads \<open>missingChunkTimeout\<close>.
\<close>

theorem cleanup_evicts_gapped_final_buffer_within_grace:
  "map_option buf_IsFinal (fmlookup (buffers ex_gap) ''M1'') = Some True
   \<and> map_option FinalChunkID (fmlookup (buffers ex_gap) ''M1'') = Some 2
   \<and> \<not> finalizable ex_gap ''M1''
   \<and> map_option UpdatedAt (fmlookup (buffers ex_gap) ''M1'') = Some 101
   \<and> 102 - 101 < missingChunkTimeout ex_gap
   \<and> fmlookup (buffers (cleanup ex_gap 102)) ''M1'' = None"
  by (simp add: ex_gap_def buffer_eval cleanup_def staleBuffers_def finalizable_def
      dense_coverage_def upto.simps)

section \<open>HTTP submit\<close>

text \<open>A well-formed submission whose publish fails: the status, and one call of the bus.\<close>

lemma HandleChat_publish_failure:
  assumes "req_SessionID req \<noteq> []" "req_Message req \<noteq> []" "req_UserID req \<noteq> []"
    and "\<And>r. publish r"
  shows "fst (HandleChat ''POST'' (Some req) messageID correlationID now publish)
           = StatusInternalServerError
     \<and> length (snd (HandleChat ''POST'' (Some req) messageID correlationID now publish)) = 1"
  using assms by (simp add: HandleChat_def Let_def)

text \<open>
  Claim C7.  A well-formed \<open>POST /api/chat\<close> whose publish fails is answered with status
  \<open>500\<close> (Internal Server Error), not \<open>503\<close>; the envelope is handed to the bus once.
\<close>

theorem HandleChat_publish_failure_status:
  "HandleChat ''POST'' (Some ex_req) ''m-1'' ''c-1'' 7 (\<lambda>r. True) =
     (StatusInternalServerError,
      [\<lparr> wf_MessageID = ''m-1'', wf_SessionID = ''S1'', wf_UserID = ''U1'',
         wf_Message = ''hi'', wf_Context = None, wf_Timestamp = 7,
         wf_CorrelationID = ''c-1'' \<rparr>])
   \<and> StatusInternalServerError \<noteq> StatusServiceUnavailable"
  by (simp add: HandleChat_def ex_req_def StatusInternalServerError_def
      StatusServiceUnavailable_def Let_def)

section \<open>Parsing membership strings\<close>

text \<open>With a connection id of 36 characters the slice arithmetic returns the pod id.\<close>

lemma extract_podID_fixed_width:
  assumes "length connectionID = 36"
  shows "extract_podID (membership podID connectionID) = Inr podID"
  using assms
  by (simp add: extract_podID_def membership_def slice_from_def slice_to_def)

text \<open>
  Claim C9.  For the member \<open>pod-1:abc\<close> (stream id \<open>abc\<close>) the slice expression of
  \<open>GetActivePods\<close> is out of range and the call panics, where splitting at the last
  \<open>':'\<close> gives \<open>pod-1\<close>.  For a stream id of 40 characters the call returns, with the
  wrong instance id \<open>pod-1:012\<close>.
\<close>

theorem GetActivePods_fixed_width_parse:
  "GetActivePods (Inr [membership ''pod-1'' ''abc'']) = Inl SliceBoundsOutOfRange
   \<and> before_last_colon (membership ''pod-1'' ''abc'') = Some ''pod-1''
   \<and> GetActivePods (Inr [membership ''pod-1'' ''0123456789012345678901234567890123456789''])
       = Inr {|''pod-1:012''|}
   \<and> before_last_colon (membership ''pod-1'' ''0123456789012345678901234567890123456789'')
       = Some ''pod-1''"
  by (simp add: GetActivePods_def membership_def extract_podID_def slice_from_def slice_to_def)

section \<open>Finalizing a message\<close>

lemma verify_None_iff:
  "FinalizeMessage_verify chunks i final = None
     \<longleftrightarrow> (\<forall>k. i \<le> k \<and> k \<le> final \<longrightarrow> fmlookup chunks k \<noteq> None)"
proof (induction chunks i final rule: FinalizeMessage_verify.induct)
  case (1 chunks i final)
  show ?case
  proof (cases "i \<le> final")
    case False
    then show ?thesis by (auto simp: FinalizeMessage_verify.simps[of chunks i final])
  next
    case le: True
    show ?thesis
    proof (cases "fmlookup chunks i")
      case None
      with le show ?thesis
        by (auto simp: FinalizeMessage_verify.simps[of chunks i final])
    next
      case (Some c)
      have "(\<forall>k. i \<le> k \<and> k \<le> final \<longrightarrow> fmlookup chunks k \<noteq> None)
          \<longleftrightarrow> (\<forall>k. i + 1 \<le> k \<and> k \<le> final \<longrightarrow> fmlookup chunks k \<noteq> None)"
      proof
        assume "\<forall>k. i \<le> k \<and> k \<le> final \<longrightarrow> fmlookup chunks k \<noteq> None"
        then show "\<forall>k. i + 1 \<le> k \<and> k \<le> final \<longrightarrow> fmlookup chunks k \<noteq> None" by simp
      next
        assume a: "\<forall>k. i + 1 \<le> k \<and> k \<le> final \<longrightarrow> fmlookup chunks k \<noteq> None"
        show "\<forall>k. i \<le> k \<and> k \<le> final \<longrightarrow> fmlookup chunks k \<noteq> None"
        proof (intro allI impI)
          fix k assume "i \<le> k \<and> k \<le> final"
          then consider "k = i" | "i + 1 \<le> k \<and> k \<le> final" by linarith
          then show "fmlookup chunks k \<noteq> None"
            using Some a by cases auto
        qed
      qed
      with "1.IH"[OF le Some] le Some show ?thesis
        by (simp add: FinalizeMessage_verify.simps[of chunks i final])
    qed
  qed
qed

lemma dense_coverage_iff:
  "dense_coverage b \<longleftrightarrow> (\<forall>k. 0 \<le> k \<and> k \<le> FinalChunkID b \<longrightarrow> fmlookup (Chunks b) k \<noteq> None)"
  by (auto simp: dense_coverage_def list_all_iff)

lemma stored_between_rec:
  "i \<le> final \<Longrightarrow> fmlookup chunks i = Some c
     \<Longrightarrow> stored_between chunks i final = c # stored_between chunks (i + 1) final"
  by (simp add: stored_between_def upto_rec1[of i final] map_filter_simps)

lemma stored_between_empty: "final < i \<Longrightarrow> stored_between chunks i final = []"
  by (simp add: stored_between_def map_filter_simps)

lemma content_of_Cons:
  "content_of (c # cs) = (if ChunkType c = ''content'' then Chunk c else []) @ content_of cs"
  by (simp add: content_of_def)

lemma fst_body:
  "fst (FinalizeMessage_body to_int chunk acc)
     = fst acc @ (if ChunkType chunk = ''content'' then Chunk chunk else [])"
  by (cases acc) (simp add: FinalizeMessage_body_def Let_def split: option.splits)

lemma reconstruct_content:
  "(\<forall>k. i \<le> k \<and> k \<le> final \<longrightarrow> fmlookup chunks k \<noteq> None)
     \<Longrightarrow> \<exists>r. FinalizeMessage_reconstruct to_int chunks i final acc = Some r
            \<and> fst r = fst acc @ content_of (stored_between chunks i final)"
proof (induction to_int chunks i final acc rule: FinalizeMessage_reconstruct.induct)
  case (1 to_int chunks i final acc)
  show ?case
  proof (cases "i \<le> final")
    case False
    then show ?thesis
      by (simp add: FinalizeMessage_reconstruct.simps[of to_int chunks i final]
          stored_between_empty content_of_def)
  next
    case le: True
    with "1.prems" obtain chunk where look: "fmlookup chunks i = Some chunk" by auto
    have dense': "\<forall>k. i + 1 \<le> k \<and> k \<le> final \<longrightarrow> fmlookup chunks k \<noteq> None"
      using "1.prems" by simp
    from "1.IH"[OF le look dense'] obtain r where
      r: "FinalizeMessage_reconstruct to_int chunks (i + 1) final (FinalizeMessage_body to_int chunk acc) = Some r"
      and fr: "fst r = fst (FinalizeMessage_body to_int chunk acc) @ content_of (stored_between chunks (i + 1) final)"
      by blast
    have "FinalizeMessage_reconstruct to_int chunks i final acc = Some r"
      using le look r by (simp add: FinalizeMessage_reconstruct.simps[of to_int chunks i final])
    moreover have "fst r = fst acc @ content_of (stored_between chunks i final)"
      using fr by (simp add: fst_body stored_between_rec[OF le look] content_of_Cons)
    ultimately show ?thesis by blast
  qed
qed

text \<open>What one pass of the loop body does to \<open>totalTokens\<close> and \<open>metadata\<close>.\<close>

lemma snd_body_not_final:
  "\<not> IsFinal chunk \<Longrightarrow> snd (FinalizeMessage_body to_int chunk acc) = snd acc"
  by (cases acc) (simp add: FinalizeMessage_body_def Let_def split: option.splits)

lemma snd_body_final:
  "IsFinal chunk \<Longrightarrow> snd (FinalizeMessage_body to_int chunk (fc, tt, md)) =
     (case Metadata chunk of
        None \<Rightarrow> (tt, md)
      | Some x \<Rightarrow> ((case tokens_used x of None \<Rightarrow> tt | Some t \<Rightarrow> to_int t), Some x))"
  by (simp add: FinalizeMessage_body_def Let_def split: option.splits)

lemma verify_find:
  "FinalizeMessage_verify chunks i final
     = List.find (\<lambda>k. fmlookup chunks k = None) [i..final]"
proof (induction chunks i final rule: FinalizeMessage_verify.induct)
  case (1 chunks i final)
  show ?case
  proof (cases "i \<le> final")
    case False
    then show ?thesis by (simp add: FinalizeMessage_verify.simps[of chunks i final])
  next
    case le: True
    then have up: "[i..final] = i # [i + 1..final]" by (simp add: upto_rec1)
    show ?thesis
    proof (cases "fmlookup chunks i")
      case None
      with le show ?thesis
        by (simp add: FinalizeMessage_verify.simps[of chunks i final] up)
    next
      case (Some c)
      with "1.IH"[OF le Some] le show ?thesis
        by (simp add: FinalizeMessage_verify.simps[of chunks i final] up)
    qed
  qed
qed

lemma reconstruct_foldl:
  "(\<forall>k. i \<le> k \<and> k \<le> final \<longrightarrow> fmlookup chunks k \<noteq> None)
     \<Longrightarrow> FinalizeMessage_reconstruct to_int chunks i final acc
           = Some (foldl (\<lambda>a c. FinalizeMessage_body to_int c a) acc
                     (stored_between chunks i final))"
proof (induction to_int chunks i final acc rule: FinalizeMessage_reconstruct.induct)
  case (1 to_int chunks i final acc)
  show ?case
  proof (cases "i \<le> final")
    case False
    then show ?thesis
      by (simp add: FinalizeMessage_reconstruct.simps[of to_int chunks i final]
          stored_between_empty)
  next
    case le: True
    with "1.prems" obtain chunk where look: "fmlookup chunks i = Some chunk" by auto
    have dense': "\<forall>k. i + 1 \<le> k \<and> k \<le> final \<longrightarrow> fmlookup chunks k \<noteq> None"
      using "1.prems" by simp
    from "1.IH"[OF le look dense'] le look show ?thesis
      by (simp add: FinalizeMessage_reconstruct.simps[of to_int chunks i final]
          stored_between_rec[OF le look])
  qed
qed

lemma foldl_body_no_final:
  "filter IsFinal cs = []
     \<Longrightarrow> snd (foldl (\<lambda>a c. FinalizeMessage_body to_int c a) acc cs) = snd acc"
proof (induction cs arbitrary: acc)
  case Nil
  then show ?case by simp
next
  case (Cons c cs)
  then have nf: "\<not> IsFinal c" and rest: "filter IsFinal cs = []"
    by (auto split: if_splits)
  from Cons.IH[OF rest] show ?case by (simp add: snd_body_not_final[OF nf])
qed

lemma foldl_body_one_final:
  "filter IsFinal cs = [cf]
     \<Longrightarrow> snd (foldl (\<lambda>a c. FinalizeMessage_body to_int c a) (fc, tt, md) cs) =
         (case Metadata cf of
            None \<Rightarrow> (tt, md)
          | Some x \<Rightarrow> ((case tokens_used x of None \<Rightarrow> tt | Some t \<Rightarrow> to_int t), Some x))"
proof (induction cs arbitrary: fc tt md)
  case Nil
  then show ?case by simp
next
  case (Cons c cs)
  show ?case
  proof (cases "IsFinal c")
    case True
    with Cons.prems have c: "c = cf" and rest: "filter IsFinal cs = []" by simp_all
    have "snd (foldl (\<lambda>a c. FinalizeMessage_body to_int c a) (fc, tt, md) (c # cs))
        = snd (FinalizeMessage_body to_int c (fc, tt, md))"
      using foldl_body_no_final[OF rest] by simp
    with True c show ?thesis by (simp add: snd_body_final)
  next
    case False
    with Cons.prems have rest: "filter IsFinal cs = [cf]" by simp
    obtain fc' where b: "FinalizeMessage_body to_int c (fc, tt, md) = (fc', tt, md)"
      using snd_body_not_final[OF False, of to_int "(fc, tt, md)"]
      by (cases "FinalizeMessage_body to_int c (fc, tt, md)") simp
    from Cons.IH[OF rest, of fc' tt md] b show ?thesis by simp
  qed
qed

lemma dense_first_missing:
  "dense_coverage b \<longleftrightarrow> first_missing b = None"
  by (auto simp: dense_coverage_def first_missing_def list_all_iff find_None_iff)


lemma FinalizeMessage_absent:
  "fmlookup (buffers m) messageID = None \<Longrightarrow> FinalizeMessage to_int m messageID now = (Inl BufferNotFound, m)"
  by (simp add: FinalizeMessage_def)

lemma FinalizeMessage_snd:
  "snd (FinalizeMessage to_int m messageID now) = m\<lparr> buffers := fmdrop messageID (buffers m) \<rparr>"
proof (cases "fmlookup (buffers m) messageID")
  case None
  then have "fmdrop messageID (buffers m) = buffers m"
    by (intro fmdrop_idle') (simp add: fmdom'_notI)
  with None show ?thesis by (simp add: FinalizeMessage_def)
next
  case (Some b)
  then show ?thesis
    by (simp add: FinalizeMessage_def Let_def split: option.splits prod.splits)
qed

lemma FinalizeMessage_present:
  assumes "fmlookup (buffers m) messageID = Some b"
  shows "fst (FinalizeMessage to_int m messageID now) =
     (if \<not> buf_IsFinal b then Inl NotYetFinalized
      else case FinalizeMessage_verify (Chunks b) 0 (FinalChunkID b) of
             Some i \<Rightarrow> Inl (MissingChunk i)
           | None \<Rightarrow>
               (case FinalizeMessage_reconstruct to_int (Chunks b) 0 (FinalChunkID b) ([], 0, None) of
                  None \<Rightarrow> Inl NilDereference
                | Some r \<Rightarrow>
                    Inr \<lparr> msg_MessageID = messageID, msg_SessionID = buf_SessionID b,
                          Role = ''assistant'', Content = fst r, msg_CreatedAt = now,
                          TokenCount = fst (snd r), msg_Metadata = snd (snd r) \<rparr>))"
  using assms by (simp add: FinalizeMessage_def Let_def split: option.splits prod.splits)

lemma FinalizeMessage_succeeds_iff:
  "(\<exists>msg. fst (FinalizeMessage to_int m messageID now) = Inr msg) \<longleftrightarrow> finalizable m messageID"
proof (cases "fmlookup (buffers m) messageID")
  case None
  then show ?thesis by (simp add: FinalizeMessage_absent finalizable_def)
next
  case (Some b)
  show ?thesis
  proof (cases "buf_IsFinal b \<and> dense_coverage b")
    case True
    then have dense: "\<forall>k. 0 \<le> k \<and> k \<le> FinalChunkID b \<longrightarrow> fmlookup (Chunks b) k \<noteq> None"
      by (simp add: dense_coverage_iff)
    then have v: "FinalizeMessage_verify (Chunks b) 0 (FinalChunkID b) = None"
      by (simp add: verify_None_iff)
    from reconstruct_content[OF dense, of to_int "([], 0, None)"] obtain r where
      "FinalizeMessage_reconstruct to_int (Chunks b) 0 (FinalChunkID b) ([], 0, None) = Some r"
      by blast
    with True v Some show ?thesis
      by (simp add: FinalizeMessage_present[OF Some] finalizable_def)
  next
    case False
    then consider "\<not> buf_IsFinal b" | "buf_IsFinal b" "\<not> dense_coverage b" by blast
    then show ?thesis
    proof cases
      case 1
      with Some show ?thesis by (simp add: FinalizeMessage_present[OF Some] finalizable_def)
    next
      case 2
      then have "FinalizeMessage_verify (Chunks b) 0 (FinalChunkID b) \<noteq> None"
        by (simp add: verify_None_iff dense_coverage_iff)
      then obtain i where "FinalizeMessage_verify (Chunks b) 0 (FinalChunkID b) = Some i"
        by blast
      with 2 Some show ?thesis
        by (simp add: FinalizeMessage_present[OF Some] finalizable_def)
    qed
  qed
qed

text \<open>
  Claim C3, as stated, fails on \<open>Metadata\<close> and \<open>TokenCount\<close> when two stored fragments
  carry \<open>is_final\<close>.  In \<open>ex_two_finals\<close> the fragment at \<open>final_seq = 1\<close> has an empty bag,
  so the claim asks for \<open>TokenCount = 0\<close>; the loop keeps the \<open>7\<close> it read from the bag of
  fragment \<open>0\<close> and returns it next to the empty bag.
\<close>

theorem second_final_leaves_stale_token_count:
  "map_option FinalChunkID (fmlookup (buffers ex_two_finals) ''M1'') = Some 1
   \<and> fst (FinalizeMessage id ex_two_finals ''M1'' 9) =
       Inr \<lparr> msg_MessageID = ''M1'', msg_SessionID = ''S1'', Role = ''assistant'',
             Content = ''ab'', msg_CreatedAt = 9, TokenCount = 7,
             msg_Metadata = Some fmempty \<rparr>
   \<and> tokens_used (fmempty :: (string, int json_value) fmap) = None"
  by (simp add: ex_two_finals_def buffer_eval FinalizeMessage_def FinalizeMessage_verify.simps
      FinalizeMessage_reconstruct.simps FinalizeMessage_body_def tokens_used_def)

text \<open>
  Claim C3, amended.  \<open>FinalizeMessage\<close> always leaves the manager without the buffer of
  the message.  It returns a message exactly when the buffer exists, has seen \<open>is_final\<close>
  and holds every sequence in \<open>[0, final_seq]\<close>.  Otherwise it returns an error and does
  not panic: "not found" without buffer, "not yet finalized" without \<open>is_final\<close>, and
  "missing chunk \<open>i\<close>" for the first missing sequence \<open>i\<close>.  The message carries the
  message id, the buffer's session id, the role \<open>assistant\<close> and the time of the call;
  its \<open>Content\<close> is the concatenation, in ascending sequence order, of the payloads of
  the fragments in \<open>[0, final_seq]\<close> whose type is \<open>content\<close>.  When exactly one fragment
  in \<open>[0, final_seq]\<close> carries \<open>is_final\<close>, \<open>Metadata\<close> is the bag of that fragment and
  \<open>TokenCount\<close> is the conversion to \<open>int\<close> of the bag's \<open>tokens_used\<close> when that is a
  number, and \<open>0\<close> otherwise.
\<close>

theorem FinalizeMessage_assembles:
  "snd (FinalizeMessage to_int m messageID now) = m\<lparr> buffers := fmdrop messageID (buffers m) \<rparr>
   \<and> ((\<exists>msg. fst (FinalizeMessage to_int m messageID now) = Inr msg) \<longleftrightarrow> finalizable m messageID)
   \<and> (fmlookup (buffers m) messageID = None \<longrightarrow>
         fst (FinalizeMessage to_int m messageID now) = Inl BufferNotFound)
   \<and> (\<forall>buffer.
         fmlookup (buffers m) messageID = Some buffer \<and> \<not> buf_IsFinal buffer \<longrightarrow>
           fst (FinalizeMessage to_int m messageID now) = Inl NotYetFinalized)
   \<and> (\<forall>buffer.
         fmlookup (buffers m) messageID = Some buffer \<and> buf_IsFinal buffer
         \<and> \<not> dense_coverage buffer \<longrightarrow>
           (\<exists>i. first_missing buffer = Some i
              \<and> fst (FinalizeMessage to_int m messageID now) = Inl (MissingChunk i)))
   \<and> (\<forall>buffer msg.
         fmlookup (buffers m) messageID = Some buffer
         \<and> fst (FinalizeMessage to_int m messageID now) = Inr msg \<longrightarrow>
           msg_MessageID msg = messageID
           \<and> msg_SessionID msg = buf_SessionID buffer
           \<and> Role msg = ''assistant''
           \<and> msg_CreatedAt msg = now
           \<and> Content msg = content_of (stored_between (Chunks buffer) 0 (FinalChunkID buffer))
           \<and> (\<forall>cf. final_fragments buffer = [cf] \<longrightarrow>
                msg_Metadata msg = Metadata cf
                \<and> TokenCount msg = token_count to_int (Metadata cf)))"
proof (intro conjI allI impI)
  show "snd (FinalizeMessage to_int m messageID now) = m\<lparr> buffers := fmdrop messageID (buffers m) \<rparr>"
    by (rule FinalizeMessage_snd)
next
  show "(\<exists>msg. fst (FinalizeMessage to_int m messageID now) = Inr msg) \<longleftrightarrow> finalizable m messageID"
    by (rule FinalizeMessage_succeeds_iff)
next
  assume "fmlookup (buffers m) messageID = None"
  then show "fst (FinalizeMessage to_int m messageID now) = Inl BufferNotFound"
    by (simp add: FinalizeMessage_absent)
next
  fix buffer
  assume "fmlookup (buffers m) messageID = Some buffer \<and> \<not> buf_IsFinal buffer"
  then show "fst (FinalizeMessage to_int m messageID now) = Inl NotYetFinalized"
    by (simp add: FinalizeMessage_present)
next
  fix buffer
  assume a: "fmlookup (buffers m) messageID = Some buffer \<and> buf_IsFinal buffer
     \<and> \<not> dense_coverage buffer"
  then obtain i where i: "first_missing buffer = Some i"
    by (auto simp: dense_first_missing)
  then have "FinalizeMessage_verify (Chunks buffer) 0 (FinalChunkID buffer) = Some i"
    by (simp add: verify_find first_missing_def)
  with a have "fst (FinalizeMessage to_int m messageID now) = Inl (MissingChunk i)"
    by (simp add: FinalizeMessage_present)
  with i show "\<exists>i. first_missing buffer = Some i
      \<and> fst (FinalizeMessage to_int m messageID now) = Inl (MissingChunk i)"
    by blast
next
  fix buffer msg
  assume a: "fmlookup (buffers m) messageID = Some buffer
     \<and> fst (FinalizeMessage to_int m messageID now) = Inr msg"
  then have look: "fmlookup (buffers m) messageID = Some buffer"
    and res: "fst (FinalizeMessage to_int m messageID now) = Inr msg" by simp_all
  from res have fin: "buf_IsFinal buffer"
    by (simp add: FinalizeMessage_present[OF look] split: if_splits)
  from res fin have v: "FinalizeMessage_verify (Chunks buffer) 0 (FinalChunkID buffer) = None"
    by (simp add: FinalizeMessage_present[OF look] split: option.splits)
  then have dense: "\<forall>k. 0 \<le> k \<and> k \<le> FinalChunkID buffer \<longrightarrow> fmlookup (Chunks buffer) k \<noteq> None"
    by (simp add: verify_None_iff)
  let ?r = "foldl (\<lambda>a c. FinalizeMessage_body to_int c a) ([], 0, None)
              (stored_between (Chunks buffer) 0 (FinalChunkID buffer))"
  have r: "FinalizeMessage_reconstruct to_int (Chunks buffer) 0 (FinalChunkID buffer) ([], 0, None)
      = Some ?r"
    by (rule reconstruct_foldl[OF dense])
  from reconstruct_content[OF dense, of to_int "([], 0, None)"] r
  have fr: "fst ?r = content_of (stored_between (Chunks buffer) 0 (FinalChunkID buffer))"
    by auto
  from res fin v r have msg: "Content msg = fst ?r" "TokenCount msg = fst (snd ?r)"
    "msg_Metadata msg = snd (snd ?r)" "msg_MessageID msg = messageID"
    "msg_SessionID msg = buf_SessionID buffer" "Role msg = ''assistant''"
    "msg_CreatedAt msg = now"
    by (auto simp: FinalizeMessage_present[OF look])
  show "msg_MessageID msg = messageID" "msg_SessionID msg = buf_SessionID buffer"
    "Role msg = ''assistant''" "msg_CreatedAt msg = now"
    by (rule msg)+
  show "Content msg = content_of (stored_between (Chunks buffer) 0 (FinalChunkID buffer))"
    using msg fr by simp
  fix cf
  assume one: "final_fragments buffer = [cf]"
  then have "filter IsFinal (stored_between (Chunks buffer) 0 (FinalChunkID buffer)) = [cf]"
    by (simp add: final_fragments_def)
  from foldl_body_one_final[OF this, of to_int "[]" 0 None]
  have sr: "snd ?r = (case Metadata cf of None \<Rightarrow> (0, None)
      | Some x \<Rightarrow> ((case tokens_used x of None \<Rightarrow> 0 | Some t \<Rightarrow> to_int t), Some x))" .
  show "msg_Metadata msg = Metadata cf"
    using msg sr by (simp split: option.splits)
  show "TokenCount msg = token_count to_int (Metadata cf)"
    using msg sr by (simp add: token_count_def split: option.splits)
qed


theorem FinalizeMessage_assembles_witness:
  "finalizable ex_done ''M1''
   \<and> map_option final_fragments (fmlookup (buffers ex_done) ''M1'')
       = Some [(ex_chunk ''M1'' 2 ''c'' True)
                 \<lparr> Metadata := Some (fmupd ''tokens_used'' (JNumber 42) fmempty) \<rparr>]
   \<and> fst (FinalizeMessage id ex_done ''M1'' 9) =
       Inr \<lparr> msg_MessageID = ''M1'', msg_SessionID = ''S1'', Role = ''assistant'',
             Content = ''ac'', msg_CreatedAt = 9, TokenCount = 42,
             msg_Metadata = Some (fmupd ''tokens_used'' (JNumber 42) fmempty) \<rparr>
   \<and> fmlookup (buffers (snd (FinalizeMessage id ex_done ''M1'' 9))) ''M1'' = None
   \<and> \<not> finalizable ex_gap ''M1''
   \<and> fst (FinalizeMessage id ex_gap ''M1'' 9) = Inl (MissingChunk 1)"
proof -
  note success = FinalizeMessage_assembles[of id ex_done "''M1''" 9]
  note missing = FinalizeMessage_assembles[of id ex_gap "''M1''" 9]
  have fin: "finalizable ex_done ''M1''"
    by (simp add: ex_done_def buffer_eval finalizable_def dense_coverage_def upto.simps)
  have ff: "map_option final_fragments (fmlookup (buffers ex_done) ''M1'')
       = Some [(ex_chunk ''M1'' 2 ''c'' True)
                 \<lparr> Metadata := Some (fmupd ''tokens_used'' (JNumber 42) fmempty) \<rparr>]"
    by (simp add: ex_done_def buffer_eval final_fragments_def stored_between_def upto.simps
        map_filter_simps)
  have res: "fst (FinalizeMessage id ex_done ''M1'' 9) =
       Inr \<lparr> msg_MessageID = ''M1'', msg_SessionID = ''S1'', Role = ''assistant'',
             Content = ''ac'', msg_CreatedAt = 9, TokenCount = 42,
             msg_Metadata = Some (fmupd ''tokens_used'' (JNumber 42) fmempty) \<rparr>"
    by (simp add: ex_done_def buffer_eval FinalizeMessage_def FinalizeMessage_verify.simps
        FinalizeMessage_reconstruct.simps FinalizeMessage_body_def tokens_used_def)
  have gone: "fmlookup (buffers (snd (FinalizeMessage id ex_done ''M1'' 9))) ''M1'' = None"
    using success by simp
  obtain b where b: "fmlookup (buffers ex_gap) ''M1'' = Some b" "buf_IsFinal b"
    "\<not> dense_coverage b" "first_missing b = Some 1"
    by (simp add: ex_gap_def buffer_eval dense_coverage_def first_missing_def upto.simps)
  have nofin: "\<not> finalizable ex_gap ''M1''"
    using b by (simp add: finalizable_def)
  from missing b obtain i where "first_missing b = Some i"
    "fst (FinalizeMessage id ex_gap ''M1'' 9) = Inl (MissingChunk i)"
    by blast
  with b(4) have err: "fst (FinalizeMessage id ex_gap ''M1'' 9) = Inl (MissingChunk 1)"
    by simp
  show ?thesis
    by (intro conjI fin ff res gone nofin err)
qed

section \<open>Duplicate fragments\<close>

text \<open>
  Claim C4, as stated, fails: in \<open>ex_capped\<close> (\<open>max_chunks_per_buffer = 1\<close>) fragment \<open>0\<close> of
  \<open>M1\<close> is stored with payload \<open>a\<close>, and the same fragment arriving again is rejected
  with the chunk-capacity error, because the per-buffer cap is enforced before the
  duplicate check.
\<close>

theorem duplicate_rejected_at_chunk_cap:
  "stored_payload ex_capped ''M1'' 0 = Some (Chunk (ex_chunk ''M1'' 0 ''a'' False))
   \<and> fst (AddChunk ex_capped 2 (ex_chunk ''M1'' 0 ''a'' False)) = Some ChunkLimitReached"
  by (simp add: ex_capped_def buffer_eval stored_payload_def)

text \<open>
  Claim C4, amended.  \<open>AddChunk\<close> with a fragment whose (message id, sequence) is already
  stored leaves the manager, and so the buffer, unchanged, whatever it returns; so
  every later \<open>GetNextChunks\<close> emits what it would have emitted without the duplicate.
  With the manager below \<open>max_buffers\<close>, the call returns success when the buffer holds
  fewer than \<open>max_chunks_per_buffer\<close> fragments and the chunk-capacity error otherwise.
\<close>

theorem AddChunk_duplicate_absorbed:
  assumes "fmlookup (buffers m) (MessageID chunk) = Some buffer"
    and "fmlookup (Chunks buffer) (ChunkID chunk) = Some existing"
  shows "snd (AddChunk m now chunk) = m
     \<and> GetNextChunks (snd (AddChunk m now chunk)) messageID = GetNextChunks m messageID
     \<and> (len (buffers m) < maxBuffersPerPod m \<and> len (Chunks buffer) < maxChunksPerBuffer m
          \<longrightarrow> fst (AddChunk m now chunk) = None)
     \<and> (len (buffers m) < maxBuffersPerPod m \<and> len (Chunks buffer) \<ge> maxChunksPerBuffer m
          \<longrightarrow> fst (AddChunk m now chunk) = Some ChunkLimitReached)"
proof -
  have same: "snd (AddChunk m now chunk) = m"
    using assms by (simp add: AddChunk_def)
  have ok: "len (buffers m) < maxBuffersPerPod m \<and> len (Chunks buffer) < maxChunksPerBuffer m
          \<longrightarrow> fst (AddChunk m now chunk) = None"
    using assms by (simp add: AddChunk_def)
  have cap: "len (buffers m) < maxBuffersPerPod m \<and> len (Chunks buffer) \<ge> maxChunksPerBuffer m
          \<longrightarrow> fst (AddChunk m now chunk) = Some ChunkLimitReached"
    using assms by (simp add: AddChunk_def)
  from same ok cap show ?thesis by simp
qed

theorem AddChunk_duplicate_absorbed_witness:
  "stored_payload ex_one ''M1'' 0 = Some ''a''
   \<and> len (buffers ex_one) < maxBuffersPerPod ex_one
   \<and> AddChunk ex_one 2 (ex_chunk ''M1'' 0 ''a'' False) = (None, ex_one)
   \<and> len (buffers ex_capped) < maxBuffersPerPod ex_capped
   \<and> AddChunk ex_capped 2 (ex_chunk ''M1'' 0 ''a'' False) = (Some ChunkLimitReached, ex_capped)"
proof -
  let ?c = "ex_chunk ''M1'' 0 ''a'' False"
  let ?b = "store_chunk (new_buffer ?c 1) 1 ?c"
  have look1: "fmlookup (buffers ex_one) (MessageID ?c) = Some ?b"
    by (simp add: ex_one_def buffer_eval)
  have look2: "fmlookup (buffers ex_capped) (MessageID ?c) = Some ?b"
    by (simp add: ex_capped_def buffer_eval)
  have ex: "fmlookup (Chunks ?b) (ChunkID ?c) = Some ?c"
    by (simp add: buffer_eval)
  have len: "len (Chunks ?b) = 1"
    by (simp add: buffer_eval)
  have p1: "len (buffers ex_one) < maxBuffersPerPod ex_one"
    "len (Chunks ?b) < maxChunksPerBuffer ex_one"
    "stored_payload ex_one ''M1'' 0 = Some ''a''"
    by (simp_all add: ex_one_def buffer_eval stored_payload_def)
  have p2: "len (buffers ex_capped) < maxBuffersPerPod ex_capped"
    "len (Chunks ?b) \<ge> maxChunksPerBuffer ex_capped"
    by (simp_all add: ex_capped_def buffer_eval)
  from AddChunk_duplicate_absorbed[OF look1 ex, of 2 "''M1''"] p1
  have r1: "AddChunk ex_one 2 ?c = (None, ex_one)"
    by (simp add: prod_eq_iff)
  from AddChunk_duplicate_absorbed[OF look2 ex, of 2 "''M1''"] p2
  have r2: "AddChunk ex_capped 2 ?c = (Some ChunkLimitReached, ex_capped)"
    by (simp add: prod_eq_iff)
  from p1 p2 r1 r2 show ?thesis by simp
qed

section \<open>The buffer invariant\<close>

lemma live_buffers_iff:
  "live_buffers P m \<longleftrightarrow> (\<forall>messageID b. fmlookup (buffers m) messageID = Some b \<longrightarrow> P b)"
  by (auto simp: live_buffers_def Ball_def split: option.splits dest: fmdomI)

lemma live_buffers_fmupd:
  "live_buffers P m \<Longrightarrow> P b \<Longrightarrow> live_buffers P (m\<lparr> buffers := fmupd messageID b (buffers m) \<rparr>)"
  by (simp add: live_buffers_iff)

lemma live_buffers_fmdrop:
  "live_buffers P m \<Longrightarrow> live_buffers P (m\<lparr> buffers := fmdrop messageID (buffers m) \<rparr>)"
  by (simp add: live_buffers_iff)

lemma live_buffers_fmdrop_fset:
  "live_buffers P m \<Longrightarrow> live_buffers P (m\<lparr> buffers := fmdrop_fset A (buffers m) \<rparr>)"
  by (simp add: live_buffers_iff)

lemma emitted_retained_iff:
  "emitted_retained b \<longleftrightarrow> (\<forall>k. 0 \<le> k \<and> k < NextToSend b \<longrightarrow> fmlookup (Chunks b) k \<noteq> None)"
  by (auto simp: emitted_retained_def list_all_iff)

lemma buffer_invariant_iff:
  "buffer_invariant b \<longleftrightarrow>
     0 \<le> NextToSend b \<and> 0 \<le> MaxChunkID b \<and> NextToSend b \<le> MaxChunkID b + 1
     \<and> (\<forall>k c. fmlookup (Chunks b) k = Some c \<longrightarrow> k \<le> MaxChunkID b)
     \<and> (\<forall>k. 0 \<le> k \<and> k < NextToSend b \<longrightarrow> fmlookup (Chunks b) k \<noteq> None)"
  by (auto simp: buffer_invariant_def emitted_retained_iff Ball_def dest: fmdomI)

lemma buffer_invariant_new: "buffer_invariant (new_buffer chunk now)"
  by (simp add: buffer_invariant_iff new_buffer_def)

lemma final_invariant_new: "final_invariant (new_buffer chunk now)"
  by (simp add: final_invariant_def new_buffer_def)

lemma buffer_invariant_store:
  assumes "buffer_invariant b"
  shows "buffer_invariant (store_chunk b now chunk)"
  using assms unfolding buffer_invariant_iff
  by (auto simp: store_chunk_def Let_def split: if_splits)

lemma final_invariant_store:
  assumes "final_invariant b"
    and "if IsFinal chunk then MaxChunkID b \<le> ChunkID chunk
         else if buf_IsFinal b then ChunkID chunk \<le> FinalChunkID b else True"
  shows "final_invariant (store_chunk b now chunk)"
  using assms unfolding final_invariant_def
  by (auto simp: store_chunk_def Let_def split: if_splits)


lemma AddChunk_full:
  "len (buffers m) \<ge> maxBuffersPerPod m \<Longrightarrow> AddChunk m now chunk = (Some BufferLimitReached, m)"
  by (simp add: AddChunk_def)

lemma AddChunk_new:
  assumes "len (buffers m) < maxBuffersPerPod m"
    and "fmlookup (buffers m) (MessageID chunk) = None"
  shows "AddChunk m now chunk =
     (if maxChunksPerBuffer m \<le> 0
      then (Some ChunkLimitReached,
            m\<lparr> buffers := fmupd (MessageID chunk) (new_buffer chunk now) (buffers m) \<rparr>)
      else (None,
            m\<lparr> buffers := fmupd (MessageID chunk)
                  (store_chunk (new_buffer chunk now) now chunk) (buffers m) \<rparr>))"
proof -
  have "Chunks (new_buffer chunk now) = fmempty" by (simp add: new_buffer_def)
  then show ?thesis using assms by (simp add: AddChunk_def)
qed

lemma AddChunk_existing:
  assumes "len (buffers m) < maxBuffersPerPod m"
    and "fmlookup (buffers m) (MessageID chunk) = Some b"
  shows "AddChunk m now chunk =
     (if maxChunksPerBuffer m \<le> len (Chunks b) then (Some ChunkLimitReached, m)
      else case fmlookup (Chunks b) (ChunkID chunk) of
             Some existing \<Rightarrow> (None, m)
           | None \<Rightarrow>
               (None, m\<lparr> buffers := fmupd (MessageID chunk) (store_chunk b now chunk) (buffers m) \<rparr>))"
  using assms by (simp add: AddChunk_def split: option.splits)

lemma AddChunk_buffer_invariant:
  assumes "live_buffers buffer_invariant m"
  shows "live_buffers buffer_invariant (snd (AddChunk m now chunk))"
proof (cases "len (buffers m) < maxBuffersPerPod m")
  case False
  with assms show ?thesis by (simp add: AddChunk_full)
next
  case cap: True
  show ?thesis
  proof (cases "fmlookup (buffers m) (MessageID chunk)")
    case None
    show ?thesis
      using assms
      by (simp add: AddChunk_new[OF cap None] live_buffers_fmupd buffer_invariant_new
          buffer_invariant_store)
  next
    case (Some b)
    then have "buffer_invariant b" using assms by (auto simp: live_buffers_iff)
    then show ?thesis
      using assms
      by (simp add: AddChunk_existing[OF cap Some] live_buffers_fmupd buffer_invariant_store
          split: option.splits)
  qed
qed

lemma AddChunk_final_invariant:
  assumes "live_buffers final_invariant m" "respects_final m chunk"
  shows "live_buffers final_invariant (snd (AddChunk m now chunk))"
proof (cases "len (buffers m) < maxBuffersPerPod m")
  case False
  with assms show ?thesis by (simp add: AddChunk_full)
next
  case cap: True
  show ?thesis
  proof (cases "fmlookup (buffers m) (MessageID chunk)")
    case None
    have "final_invariant (store_chunk (new_buffer chunk now) now chunk)"
      using assms(2)
      by (simp add: final_invariant_def store_chunk_def new_buffer_def respects_final_def Let_def)
    then show ?thesis
      using assms(1)
      by (simp add: AddChunk_new[OF cap None] live_buffers_fmupd final_invariant_new)
  next
    case (Some b)
    then have fb: "final_invariant b" using assms(1) by (auto simp: live_buffers_iff)
    have "final_invariant (store_chunk b now chunk)"
      using assms(2) Some by (intro final_invariant_store[OF fb]) (simp add: respects_final_def)
    then show ?thesis
      using assms(1)
      by (simp add: AddChunk_existing[OF cap Some] live_buffers_fmupd split: option.splits)
  qed
qed


lemma GetNextChunks_absent:
  "fmlookup (buffers m) messageID = None \<Longrightarrow> GetNextChunks m messageID = (Inl BufferNotFound, m)"
  by (simp add: GetNextChunks_def)

lemma GetNextChunks_snd:
  assumes "fmlookup (buffers m) messageID = Some b"
  shows "\<exists>n. snd (GetNextChunks m messageID)
            = m\<lparr> buffers := fmupd messageID (b\<lparr> NextToSend := NextToSend b + int n \<rparr>) (buffers m) \<rparr>
     \<and> (\<forall>i < n. fmlookup (Chunks b) (NextToSend b + int i) \<noteq> None)"
proof -
  from GetNextChunks_advance[OF assms] obtain cs where
    "GetNextChunks m messageID =
           (Inr (cs, buf_IsFinal b \<and> NextToSend b + int (length cs) > FinalChunkID b),
            m\<lparr> buffers := fmupd messageID
                  (b\<lparr> NextToSend := NextToSend b + int (length cs) \<rparr>) (buffers m) \<rparr>)"
    and "\<forall>i < length cs. fmlookup (Chunks b) (NextToSend b + int i) = Some (cs ! i)"
    by blast
  then show ?thesis by (intro exI[of _ "length cs"]) simp
qed

lemma buffer_invariant_advance:
  assumes inv: "buffer_invariant b"
    and present: "\<forall>i < n. fmlookup (Chunks b) (NextToSend b + int i) \<noteq> None"
  shows "buffer_invariant (b\<lparr> NextToSend := NextToSend b + int n \<rparr>)"
proof -
  from inv have a: "0 \<le> NextToSend b" "0 \<le> MaxChunkID b" "NextToSend b \<le> MaxChunkID b + 1"
    and keys: "\<forall>k c. fmlookup (Chunks b) k = Some c \<longrightarrow> k \<le> MaxChunkID b"
    and ret: "\<forall>k. 0 \<le> k \<and> k < NextToSend b \<longrightarrow> fmlookup (Chunks b) k \<noteq> None"
    unfolding buffer_invariant_iff by blast+
  have bound: "NextToSend b + int n \<le> MaxChunkID b + 1"
  proof (cases n)
    case 0
    with a show ?thesis by simp
  next
    case (Suc j)
    then have "fmlookup (Chunks b) (NextToSend b + int j) \<noteq> None" using present by simp
    then have "NextToSend b + int j \<le> MaxChunkID b" using keys by auto
    with Suc show ?thesis by simp
  qed
  have ret': "\<forall>k. 0 \<le> k \<and> k < NextToSend b + int n \<longrightarrow> fmlookup (Chunks b) k \<noteq> None"
  proof (intro allI impI)
    fix k assume k: "0 \<le> k \<and> k < NextToSend b + int n"
    show "fmlookup (Chunks b) k \<noteq> None"
    proof (cases "k < NextToSend b")
      case True
      with k ret show ?thesis by simp
    next
      case False
      then have "nat (k - NextToSend b) < n" "k = NextToSend b + int (nat (k - NextToSend b))"
        using k by auto
      with present show ?thesis by metis
    qed
  qed
  show ?thesis
    unfolding buffer_invariant_iff using a keys bound ret' by simp
qed

lemma GetNextChunks_buffer_invariant:
  assumes "live_buffers buffer_invariant m"
  shows "live_buffers buffer_invariant (snd (GetNextChunks m messageID))"
proof (cases "fmlookup (buffers m) messageID")
  case None
  with assms show ?thesis by (simp add: GetNextChunks_absent)
next
  case (Some b)
  then have inv: "buffer_invariant b" using assms by (auto simp: live_buffers_iff)
  from GetNextChunks_snd[OF Some] obtain n where
    eq: "snd (GetNextChunks m messageID)
            = m\<lparr> buffers := fmupd messageID (b\<lparr> NextToSend := NextToSend b + int n \<rparr>) (buffers m) \<rparr>"
    and present: "\<forall>i < n. fmlookup (Chunks b) (NextToSend b + int i) \<noteq> None"
    by blast
  show ?thesis
    unfolding eq by (intro live_buffers_fmupd assms buffer_invariant_advance inv present)
qed

lemma GetNextChunks_final_invariant:
  assumes "live_buffers final_invariant m"
  shows "live_buffers final_invariant (snd (GetNextChunks m messageID))"
proof (cases "fmlookup (buffers m) messageID")
  case None
  with assms show ?thesis by (simp add: GetNextChunks_absent)
next
  case (Some b)
  then have inv: "final_invariant b" using assms by (auto simp: live_buffers_iff)
  from GetNextChunks_snd[OF Some] obtain n where
    eq: "snd (GetNextChunks m messageID)
            = m\<lparr> buffers := fmupd messageID (b\<lparr> NextToSend := NextToSend b + int n \<rparr>) (buffers m) \<rparr>"
    by blast
  have "final_invariant (b\<lparr> NextToSend := NextToSend b + int n \<rparr>)"
    using inv by (simp add: final_invariant_def)
  then show ?thesis
    unfolding eq by (intro live_buffers_fmupd assms)
qed

lemma GetState_snd: "snd (GetState m messageID) = m"
  by (simp add: GetState_def Let_def split: option.splits)

lemma invariant_preserved_general:
  assumes "live_buffers P m"
  shows "live_buffers P (snd (FinalizeMessage to_int m messageID now))"
    and "live_buffers P (snd (GetState m messageID))"
    and "live_buffers P (cleanup m t)"
  using assms
  by (simp_all add: FinalizeMessage_snd GetState_snd cleanup_def live_buffers_fmdrop
      live_buffers_fmdrop_fset)

lemma live_buffers_NewManager: "live_buffers P (NewManager a b c d e)"
  by (simp add: live_buffers_iff NewManager_def)

text \<open>
  Claim C8, as stated, fails.  In \<open>ex_one\<close> fragment \<open>0\<close> of \<open>M1\<close> is stored and
  \<open>next_to_emit = 0\<close>: the invariant of the specification holds.  \<open>GetNextChunks\<close> emits
  the fragment and advances \<open>next_to_emit\<close> to \<open>1\<close>, but the fragment stays in the map
  (finalize reads it later), so a fragment below \<open>next_to_emit\<close> is stored.
\<close>

theorem emission_breaks_spec_invariant:
  "live_buffers spec_invariant ex_one
   \<and> \<not> live_buffers spec_invariant (snd (GetNextChunks ex_one ''M1''))"
  by (simp add: ex_one_def buffer_eval live_buffers_def spec_invariant_def
      GetNextChunks_def GetNextChunks_loop.simps)

text \<open>
  \<open>AddChunk\<close> does not check the fragment invariant: in \<open>ex_gap\<close> the final fragment has
  sequence \<open>2\<close>, and a later fragment with sequence \<open>5\<close> raises \<open>max_seen\<close> above
  \<open>final_seq\<close>.
\<close>

lemma final_invariant_needs_wellformed_fragments:
  "live_buffers final_invariant ex_gap
   \<and> \<not> respects_final ex_gap (ex_chunk ''M1'' 5 ''f'' False)
   \<and> \<not> live_buffers final_invariant (snd (AddChunk ex_gap 103 (ex_chunk ''M1'' 5 ''f'' False)))"
  by (simp add: ex_gap_def buffer_eval live_buffers_def final_invariant_def respects_final_def)

text \<open>
  Claim C8, amended.  \<open>AddChunk\<close>, \<open>GetNextChunks\<close>, \<open>FinalizeMessage\<close>, \<open>GetState\<close> and
  \<open>cleanup\<close> preserve, for every live buffer: \<open>0 \<le> next_to_emit \<le> max_seen + 1\<close>, no
  stored sequence exceeds \<open>max_seen\<close>, and every sequence in \<open>[0, next_to_emit)\<close> is
  still stored (emitted fragments are retained, not released).  They also preserve
  \<open>final_seq \<ge> max_seen\<close> once \<open>final_seen\<close>; for \<open>AddChunk\<close> this needs the arriving
  fragment to respect the fragment invariant (sequence not negative, \<open>is_final\<close> on the
  largest sequence).
\<close>

theorem buffer_invariant_preserved:
  assumes "live_buffers buffer_invariant m"
  shows "live_buffers buffer_invariant (snd (AddChunk m now chunk))
     \<and> live_buffers buffer_invariant (snd (GetNextChunks m messageID))
     \<and> live_buffers buffer_invariant (snd (FinalizeMessage to_int m messageID now))
     \<and> live_buffers buffer_invariant (snd (GetState m messageID))
     \<and> live_buffers buffer_invariant (cleanup m now)
     \<and> (live_buffers final_invariant m \<longrightarrow>
          (respects_final m chunk \<longrightarrow> live_buffers final_invariant (snd (AddChunk m now chunk)))
          \<and> live_buffers final_invariant (snd (GetNextChunks m messageID))
          \<and> live_buffers final_invariant (snd (FinalizeMessage to_int m messageID now))
          \<and> live_buffers final_invariant (snd (GetState m messageID))
          \<and> live_buffers final_invariant (cleanup m now))"
  using assms
  by (simp add: AddChunk_buffer_invariant GetNextChunks_buffer_invariant
      invariant_preserved_general AddChunk_final_invariant GetNextChunks_final_invariant)


theorem buffer_invariant_preserved_witness:
  "live_buffers buffer_invariant ex_one
   \<and> live_buffers final_invariant ex_one
   \<and> respects_final ex_one (ex_chunk ''M1'' 1 ''b'' True)
   \<and> live_buffers buffer_invariant (snd (AddChunk ex_one 2 (ex_chunk ''M1'' 1 ''b'' True)))
   \<and> live_buffers final_invariant (snd (AddChunk ex_one 2 (ex_chunk ''M1'' 1 ''b'' True)))
   \<and> live_buffers buffer_invariant (snd (GetNextChunks ex_one ''M1''))
   \<and> stored_payload (snd (GetNextChunks ex_one ''M1'')) ''M1'' 0 = Some ''a''"
proof -
  have inv: "live_buffers buffer_invariant ex_one"
    by (simp add: ex_one_def buffer_eval live_buffers_def buffer_invariant_def
        emitted_retained_def upto.simps)
  have fin: "live_buffers final_invariant ex_one"
    by (simp add: ex_one_def buffer_eval live_buffers_def final_invariant_def)
  have resp: "respects_final ex_one (ex_chunk ''M1'' 1 ''b'' True)"
    by (simp add: ex_one_def buffer_eval respects_final_def)
  have kept: "stored_payload (snd (GetNextChunks ex_one ''M1'')) ''M1'' 0 = Some ''a''"
    by (simp add: ex_one_def buffer_eval stored_payload_def GetNextChunks_def
        GetNextChunks_loop.simps)
  from buffer_invariant_preserved[OF inv, of 2 "ex_chunk ''M1'' 1 ''b'' True" "''M1''" "\<lambda>x. x"]
    inv fin resp kept
  show ?thesis by simp
qed

section \<open>Arrival order does not matter\<close>

lemma fragments_from_nth:
  "fragments_from messageID j frags \<Longrightarrow> i < length frags \<Longrightarrow>
     MessageID (frags ! i) = messageID \<and> ChunkID (frags ! i) = j + int i
     \<and> (IsFinal (frags ! i) \<longleftrightarrow> Suc i = length frags)"
proof (induction messageID j frags arbitrary: i rule: fragments_from.induct)
  case (1 messageID j)
  then show ?case by simp
next
  case (2 messageID j c)
  then show ?case by simp
next
  case (3 messageID j c c' cs)
  show ?case
  proof (cases i)
    case 0
    with "3.prems" show ?thesis by simp
  next
    case (Suc i')
    with "3.prems" have "i' < length (c' # cs)" "fragments_from messageID (j + 1) (c' # cs)"
      by simp_all
    from "3.IH"[OF this(2) this(1)] Suc show ?thesis by simp
  qed
qed

lemma fragments_from_nonempty: "fragments_from messageID j frags \<Longrightarrow> frags \<noteq> []"
  by (cases frags) simp_all

lemma fragments_from_mem:
  assumes "fragments_from messageID 0 frags" "c \<in> set frags"
  shows "MessageID c = messageID" "0 \<le> ChunkID c" "ChunkID c < int (length frags)"
    "c = frags ! nat (ChunkID c)" "IsFinal c \<longleftrightarrow> ChunkID c = int (length frags) - 1"
proof -
  from assms(2) obtain i where i: "i < length frags" "c = frags ! i"
    by (auto simp: in_set_conv_nth)
  from fragments_from_nth[OF assms(1) i(1)] i
  have f: "MessageID c = messageID" "ChunkID c = int i" "IsFinal c \<longleftrightarrow> Suc i = length frags"
    by simp_all
  show "MessageID c = messageID" by (rule f(1))
  show "0 \<le> ChunkID c" using f(2) by simp
  show "ChunkID c < int (length frags)" using f(2) i(1) by simp
  show "c = frags ! nat (ChunkID c)" using f(2) i(2) by simp
  show "IsFinal c \<longleftrightarrow> ChunkID c = int (length frags) - 1" using f(2,3) by auto
qed

lemma fragments_from_ids:
  assumes "fragments_from messageID 0 frags"
  shows "map ChunkID frags = map int [0..<length frags]"
proof (rule nth_equalityI)
  show "length (map ChunkID frags) = length (map int [0..<length frags])" by simp
next
  fix i assume "i < length (map ChunkID frags)"
  then have "i < length frags" by simp
  with fragments_from_nth[OF assms this] show "map ChunkID frags ! i = map int [0..<length frags] ! i"
    by simp
qed

lemma fragments_from_distinct:
  assumes "fragments_from messageID 0 frags"
  shows "distinct (map ChunkID frags)"
  unfolding fragments_from_ids[OF assms] by (simp add: distinct_map inj_on_def)

lemma holds_only_iff:
  "holds_only frags b \<longleftrightarrow>
     (\<forall>k c. fmlookup (Chunks b) k = Some c \<longrightarrow> 0 \<le> k \<and> k < int (length frags) \<and> c = frags ! nat k)
     \<and> buf_IsFinal b = (fmlookup (Chunks b) (int (length frags) - 1) \<noteq> None)
     \<and> (buf_IsFinal b \<longrightarrow> FinalChunkID b = int (length frags) - 1)"
  by (simp add: holds_only_def fmpred_iff)

lemma holds_only_new: "holds_only frags (new_buffer chunk now)"
  by (simp add: holds_only_iff new_buffer_def)

lemma holds_only_store:
  assumes h: "holds_only frags b"
    and c: "0 \<le> ChunkID c" "ChunkID c < int (length frags)" "c = frags ! nat (ChunkID c)"
      "IsFinal c \<longleftrightarrow> ChunkID c = int (length frags) - 1"
  shows "holds_only frags (store_chunk b now c)"
proof -
  let ?b = "store_chunk b now c"
  let ?N = "int (length frags) - 1"
  from h have old: "\<forall>k d. fmlookup (Chunks b) k = Some d \<longrightarrow> 0 \<le> k \<and> k < int (length frags) \<and> d = frags ! nat k"
    and oldfin: "buf_IsFinal b = (fmlookup (Chunks b) ?N \<noteq> None)"
    and oldseq: "buf_IsFinal b \<longrightarrow> FinalChunkID b = ?N"
    unfolding holds_only_iff by blast+
  have ch: "Chunks ?b = fmupd (ChunkID c) c (Chunks b)"
    by (simp add: store_chunk_def Let_def)
  have fin: "buf_IsFinal ?b = (IsFinal c \<or> buf_IsFinal b)"
    by (simp add: store_chunk_def Let_def)
  have seq: "FinalChunkID ?b = (if IsFinal c then ChunkID c else FinalChunkID b)"
    by (simp add: store_chunk_def Let_def)
  have 1: "\<forall>k d. fmlookup (Chunks ?b) k = Some d \<longrightarrow> 0 \<le> k \<and> k < int (length frags) \<and> d = frags ! nat k"
  proof (intro allI impI)
    fix k d assume "fmlookup (Chunks ?b) k = Some d"
    then have "(k = ChunkID c \<and> d = c) \<or> fmlookup (Chunks b) k = Some d"
      unfolding ch by (auto split: if_splits)
    then show "0 \<le> k \<and> k < int (length frags) \<and> d = frags ! nat k"
      using old c(1,2,3) by blast
  qed
  have 2: "buf_IsFinal ?b = (fmlookup (Chunks ?b) ?N \<noteq> None)"
    unfolding fin ch using oldfin c(4) by auto
  have 3: "buf_IsFinal ?b \<longrightarrow> FinalChunkID ?b = ?N"
    unfolding fin seq using oldseq c(4) by auto
  from 1 2 3 show ?thesis unfolding holds_only_iff by blast
qed

lemma AddChunk_held:
  assumes fr: "fragments_from messageID 0 frags" and mem: "c \<in> set frags"
    and h: "held frags m messageID"
  shows "held frags (snd (AddChunk m now c)) messageID"
proof -
  note cf = fragments_from_mem[OF fr mem]
  show ?thesis
  proof (cases "len (buffers m) < maxBuffersPerPod m")
    case False
    with h show ?thesis by (simp add: AddChunk_full)
  next
    case cap: True
    show ?thesis
    proof (cases "fmlookup (buffers m) (MessageID c)")
      case None
      have "holds_only frags (store_chunk (new_buffer c now) now c)"
        by (intro holds_only_store holds_only_new cf)
      then show ?thesis
        using cf(1) by (simp add: AddChunk_new[OF cap None] held_def holds_only_new)
    next
      case (Some b)
      with h cf(1) have hb: "holds_only frags b" by (simp add: held_def)
      have "holds_only frags (store_chunk b now c)"
        by (intro holds_only_store hb cf)
      then show ?thesis
        using cf(1) h Some by (simp add: AddChunk_existing[OF cap Some] held_def split: option.splits)
    qed
  qed
qed

lemma AddChunks_held:
  assumes fr: "fragments_from messageID 0 frags"
  shows "snd ` set xs \<subseteq> set frags \<Longrightarrow> held frags m messageID
     \<Longrightarrow> held frags (AddChunks m xs) messageID"
proof (induction xs arbitrary: m)
  case Nil
  then show ?case by simp
next
  case (Cons x xs)
  obtain t c where x: "x = (t, c)" by (cases x)
  with Cons.prems have mem: "c \<in> set frags" and rest: "snd ` set xs \<subseteq> set frags" by auto
  have "held frags (snd (AddChunk m t c)) messageID"
    by (rule AddChunk_held[OF fr mem Cons.prems(2)])
  from Cons.IH[OF rest this] x show ?case by simp
qed


lemma FinalizeMessage_success:
  assumes look: "fmlookup (buffers m) messageID = Some b"
    and fin: "buf_IsFinal b"
    and dense: "\<forall>k. 0 \<le> k \<and> k \<le> FinalChunkID b \<longrightarrow> fmlookup (Chunks b) k \<noteq> None"
  shows "finalize_content to_int m messageID now
           = Some (content_of (stored_between (Chunks b) 0 (FinalChunkID b)))"
proof -
  from dense have v: "FinalizeMessage_verify (Chunks b) 0 (FinalChunkID b) = None"
    by (simp add: verify_None_iff)
  from reconstruct_content[OF dense, of to_int "([], 0, None)"] obtain r where
    "FinalizeMessage_reconstruct to_int (Chunks b) 0 (FinalChunkID b) ([], 0, None) = Some r"
    "fst r = content_of (stored_between (Chunks b) 0 (FinalChunkID b))"
    by auto
  with fin v show ?thesis
    by (simp add: finalize_content_def FinalizeMessage_present[OF look])
qed

lemma FinalizeMessage_failure:
  assumes look: "fmlookup (buffers m) messageID = Some b"
    and no: "\<not> (buf_IsFinal b \<and> (\<forall>k. 0 \<le> k \<and> k \<le> FinalChunkID b \<longrightarrow> fmlookup (Chunks b) k \<noteq> None))"
  shows "finalize_content to_int m messageID now = None"
proof (cases "buf_IsFinal b")
  case False
  then show ?thesis by (simp add: finalize_content_def FinalizeMessage_present[OF look])
next
  case True
  with no have "FinalizeMessage_verify (Chunks b) 0 (FinalChunkID b) \<noteq> None"
    by (simp add: verify_None_iff)
  then obtain i where "FinalizeMessage_verify (Chunks b) 0 (FinalChunkID b) = Some i" by blast
  with True show ?thesis by (simp add: finalize_content_def FinalizeMessage_present[OF look])
qed

lemma len_card: "len m = int (card {k. fmlookup m k \<noteq> None})"
proof -
  have "fset (fmdom m) = {k. fmlookup m k \<noteq> None}"
    by (auto simp: fmlookup_dom_iff)
  then show ?thesis by (simp add: len_def fcard.rep_eq)
qed

lemma holds_only_dom_full:
  assumes h: "holds_only frags b" and full: "len (Chunks b) = int (length frags)"
  shows "{k. fmlookup (Chunks b) k \<noteq> None} = {0..<int (length frags)}"
proof (rule card_subset_eq)
  show "finite {0..<int (length frags)}" by simp
  show "{k. fmlookup (Chunks b) k \<noteq> None} \<subseteq> {0..<int (length frags)}"
    using h by (auto simp: holds_only_iff)
  show "card {k. fmlookup (Chunks b) k \<noteq> None} = card {0..<int (length frags)}"
    using full by (simp add: len_card)
qed

lemma holds_only_dom_sub:
  assumes h: "holds_only frags b"
  shows "{k. fmlookup (Chunks b) k \<noteq> None} \<subseteq> {0..<int (length frags)}"
  using h by (auto simp: holds_only_iff)

lemma stored_between_all:
  assumes "\<forall>k. 0 \<le> k \<and> k < int (length frags) \<longrightarrow> fmlookup chunks k = Some (frags ! nat k)"
  shows "stored_between chunks 0 (int (length frags) - 1) = frags"
proof -
  let ?N = "int (length frags) - 1"
  have all: "\<forall>k \<in> set [0..?N]. fmlookup chunks k = Some (frags ! nat k)"
    using assms by auto
  then have flt: "filter (\<lambda>k. fmlookup chunks k \<noteq> None) [0..?N] = [0..?N]"
    by (intro filter_True) auto
  have "stored_between chunks 0 ?N = map (the \<circ> fmlookup chunks) [0..?N]"
    unfolding stored_between_def List.map_filter_def flt ..
  also have "\<dots> = map (\<lambda>k. frags ! nat k) [0..?N]"
    using all by (intro map_cong) auto
  also have "\<dots> = frags"
  proof (rule nth_equalityI)
    show "length (map (\<lambda>k. frags ! nat k) [0..?N]) = length frags" by simp
  next
    fix i assume "i < length (map (\<lambda>k. frags ! nat k) [0..?N])"
    then have i: "i < length frags" by simp
    then have "[0..?N] ! i = 0 + int i" by (intro nth_upto) simp
    with i show "map (\<lambda>k. frags ! nat k) [0..?N] ! i = frags ! i" by simp
  qed
  finally show ?thesis .
qed

lemma finalize_content_held:
  assumes ne: "frags \<noteq> []"
    and look: "fmlookup (buffers m) messageID = Some b"
    and h: "holds_only frags b"
  shows "finalize_content to_int m messageID now
           = (if len (Chunks b) = int (length frags) then Some (content_of frags) else None)"
proof (cases "len (Chunks b) = int (length frags)")
  case True
  note dom = holds_only_dom_full[OF h True]
  have present: "\<forall>k. 0 \<le> k \<and> k < int (length frags) \<longrightarrow> fmlookup (Chunks b) k = Some (frags ! nat k)"
  proof (intro allI impI)
    fix k assume "0 \<le> k \<and> k < int (length frags)"
    then have "k \<in> {k. fmlookup (Chunks b) k \<noteq> None}" unfolding dom by simp
    then obtain c where "fmlookup (Chunks b) k = Some c" by auto
    with h show "fmlookup (Chunks b) k = Some (frags ! nat k)" by (auto simp: holds_only_iff)
  qed
  have "fmlookup (Chunks b) (int (length frags) - 1) \<noteq> None"
    using present ne by simp
  with h have fin: "buf_IsFinal b" and seq: "FinalChunkID b = int (length frags) - 1"
    by (auto simp: holds_only_iff)
  have dense: "\<forall>k. 0 \<le> k \<and> k \<le> FinalChunkID b \<longrightarrow> fmlookup (Chunks b) k \<noteq> None"
    using present seq by simp
  show ?thesis
    using True FinalizeMessage_success[OF look fin dense, of to_int now]
    by (simp add: seq stored_between_all[OF present])
next
  case False
  have "\<not> (buf_IsFinal b \<and> (\<forall>k. 0 \<le> k \<and> k \<le> FinalChunkID b \<longrightarrow> fmlookup (Chunks b) k \<noteq> None))"
  proof
    assume a: "buf_IsFinal b \<and> (\<forall>k. 0 \<le> k \<and> k \<le> FinalChunkID b \<longrightarrow> fmlookup (Chunks b) k \<noteq> None)"
    with h have seq: "FinalChunkID b = int (length frags) - 1" by (simp add: holds_only_iff)
    have "{0..<int (length frags)} \<subseteq> {k. fmlookup (Chunks b) k \<noteq> None}"
      using a seq by auto
    with holds_only_dom_sub[OF h] have "{k. fmlookup (Chunks b) k \<noteq> None} = {0..<int (length frags)}"
      by blast
    then have "len (Chunks b) = int (length frags)" by (simp add: len_card)
    with False show False by simp
  qed
  from FinalizeMessage_failure[OF look this] False show ?thesis by simp
qed


lemma AddChunk_limits:
  "maxBuffersPerPod (snd (AddChunk m now c)) = maxBuffersPerPod m"
  "maxChunksPerBuffer (snd (AddChunk m now c)) = maxChunksPerBuffer m"
  by (simp_all add: AddChunk_def Let_def split: option.splits)

lemma Chunks_store: "Chunks (store_chunk b now c) = fmupd (ChunkID c) c (Chunks b)"
  by (simp add: store_chunk_def Let_def)

lemma AddChunk_shape:
  assumes "fresh m (MessageID c) (ChunkID c)"
  shows "shape (snd (AddChunk m now c)) (MessageID c)
           = shape_step (maxBuffersPerPod m) (maxChunksPerBuffer m) (shape m (MessageID c))"
proof (cases "len (buffers m) < maxBuffersPerPod m")
  case False
  then show ?thesis by (simp add: AddChunk_full shape_def shape_step_def)
next
  case cap: True
  show ?thesis
  proof (cases "fmlookup (buffers m) (MessageID c)")
    case None
    then show ?thesis
      using cap
      by (simp add: AddChunk_new[OF cap None] shape_def shape_step_def len_fmupd Chunks_store
          new_buffer_def)
  next
    case (Some b)
    with assms have "fmlookup (Chunks b) (ChunkID c) = None" by (simp add: fresh_def)
    then show ?thesis
      using cap Some
      by (simp add: AddChunk_existing[OF cap Some] shape_def shape_step_def len_fmupd Chunks_store)
  qed
qed

lemma AddChunk_fresh:
  assumes "fresh m (MessageID c) seq" "seq \<noteq> ChunkID c"
  shows "fresh (snd (AddChunk m now c)) (MessageID c) seq"
proof (cases "len (buffers m) < maxBuffersPerPod m")
  case False
  with assms show ?thesis by (simp add: AddChunk_full)
next
  case cap: True
  show ?thesis
  proof (cases "fmlookup (buffers m) (MessageID c)")
    case None
    then show ?thesis
      using assms(2)
      by (simp add: AddChunk_new[OF cap None] fresh_def Chunks_store new_buffer_def)
  next
    case (Some b)
    then show ?thesis
      using assms
      by (simp add: AddChunk_existing[OF cap Some] fresh_def Chunks_store split: option.splits)
  qed
qed

lemma AddChunks_limits:
  "maxBuffersPerPod (AddChunks m xs) = maxBuffersPerPod m
   \<and> maxChunksPerBuffer (AddChunks m xs) = maxChunksPerBuffer m"
  by (induction m xs rule: AddChunks.induct) (simp_all add: AddChunk_limits)

lemma AddChunks_shape:
  "\<forall>c \<in> snd ` set xs. MessageID c = messageID \<and> fresh m messageID (ChunkID c)
     \<Longrightarrow> distinct (map (\<lambda>x. ChunkID (snd x)) xs)
     \<Longrightarrow> shape (AddChunks m xs) messageID
           = ((shape_step (maxBuffersPerPod m) (maxChunksPerBuffer m)) ^^ length xs) (shape m messageID)"
proof (induction xs arbitrary: m)
  case Nil
  then show ?case by simp
next
  case (Cons x xs)
  obtain t c where x: "x = (t, c)" by (cases x)
  let ?m = "snd (AddChunk m t c)"
  from Cons.prems x have c: "MessageID c = messageID" "fresh m (MessageID c) (ChunkID c)"
    by auto
  have rest: "\<forall>d \<in> snd ` set xs. MessageID d = messageID \<and> fresh ?m messageID (ChunkID d)"
  proof
    fix d assume d: "d \<in> snd ` set xs"
    with Cons.prems(1) have md: "MessageID d = messageID" "fresh m messageID (ChunkID d)" by auto
    from d obtain y where y: "y \<in> set xs" "d = snd y" by auto
    then have "ChunkID d \<in> (\<lambda>x. ChunkID (snd x)) ` set xs" by force
    moreover from Cons.prems(2) x have "ChunkID c \<notin> (\<lambda>x. ChunkID (snd x)) ` set xs" by simp
    ultimately have "ChunkID d \<noteq> ChunkID c" by metis
    with AddChunk_fresh[of m c "ChunkID d" t] md c(1)
    show "MessageID d = messageID \<and> fresh ?m messageID (ChunkID d)" by simp
  qed
  have dist: "distinct (map (\<lambda>x. ChunkID (snd x)) xs)" using Cons.prems(2) by simp
  from Cons.IH[OF rest dist]
  have "shape (AddChunks ?m xs) messageID
      = ((shape_step (maxBuffersPerPod m) (maxChunksPerBuffer m)) ^^ length xs) (shape ?m messageID)"
    by (simp add: AddChunk_limits)
  also have "shape ?m messageID
      = shape_step (maxBuffersPerPod m) (maxChunksPerBuffer m) (shape m messageID)"
    using AddChunk_shape[OF c(2), of t] c(1) by simp
  finally show ?case using x by (simp add: funpow_swap1)
qed

lemma shape_step_room:
  assumes "nb < maxBuffers" "n + int k \<le> maxChunks"
  shows "((shape_step maxBuffers maxChunks) ^^ k) (nb, Some n) = (nb, Some (n + int k))"
  using assms
proof (induction k arbitrary: n)
  case 0
  then show ?case by simp
next
  case (Suc k)
  then have "shape_step maxBuffers maxChunks (nb, Some n) = (nb, Some (n + 1))"
    by (simp add: shape_step_def)
  moreover have "((shape_step maxBuffers maxChunks) ^^ k) (nb, Some (n + 1)) = (nb, Some (n + 1 + int k))"
    using Suc.prems by (intro Suc.IH) simp_all
  ultimately show ?case by (simp add: funpow_swap1)
qed

lemma shape_step_room_new:
  assumes "nb + 1 < maxBuffers" "int k \<le> maxChunks" "0 < k"
  shows "((shape_step maxBuffers maxChunks) ^^ k) (nb, None) = (nb + 1, Some (int k))"
proof -
  obtain j where k: "k = Suc j" using assms(3) by (cases k) simp_all
  have first: "shape_step maxBuffers maxChunks (nb, None) = (nb + 1, Some 1)"
    using assms k by (simp add: shape_step_def)
  have "((shape_step maxBuffers maxChunks) ^^ j) (nb + 1, Some 1) = (nb + 1, Some (1 + int j))"
    using assms k by (intro shape_step_room) simp_all
  with first k show ?thesis by (simp add: funpow_swap1)
qed


lemma ingest_content:
  assumes fr: "fragments_from messageID 0 frags"
    and perm: "mset (map snd xs) = mset frags"
    and new: "fmlookup (buffers m) messageID = None"
  shows "finalize_content to_int (AddChunks m xs) messageID now =
     (case snd (((shape_step (maxBuffersPerPod m) (maxChunksPerBuffer m)) ^^ length frags)
                  (shape m messageID)) of
        None \<Rightarrow> None
      | Some n \<Rightarrow> if n = int (length frags) then Some (content_of frags) else None)"
proof -
  let ?m = "AddChunks m xs"
  from perm have sets: "snd ` set xs = set frags"
    by (metis set_map set_mset_mset)
  from perm have lens: "length xs = length frags"
    by (metis length_map mset_eq_length)
  have "mset (map ChunkID (map snd xs)) = mset (map ChunkID frags)"
    using perm by (metis mset_map)
  then have "distinct (map ChunkID (map snd xs))"
    using fragments_from_distinct[OF fr] by (metis mset_eq_imp_distinct_iff)
  then have dist: "distinct (map (\<lambda>x. ChunkID (snd x)) xs)"
    by (simp add: comp_def)
  have fresh: "\<forall>c \<in> snd ` set xs. MessageID c = messageID \<and> fresh m messageID (ChunkID c)"
    using sets fragments_from_mem(1)[OF fr] new by (auto simp: fresh_def)
  have sh: "shape ?m messageID
      = ((shape_step (maxBuffersPerPod m) (maxChunksPerBuffer m)) ^^ length frags) (shape m messageID)"
    using AddChunks_shape[OF fresh dist] lens by simp
  have held: "held frags ?m messageID"
    using sets new by (intro AddChunks_held[OF fr]) (simp_all add: held_def)
  show ?thesis
  proof (cases "fmlookup (buffers ?m) messageID")
    case None
    then have "snd (shape ?m messageID) = None" by (simp add: shape_def)
    moreover have "finalize_content to_int ?m messageID now = None"
      using None by (simp add: finalize_content_def FinalizeMessage_absent)
    ultimately show ?thesis unfolding sh[symmetric] by simp
  next
    case (Some b)
    then have "snd (shape ?m messageID) = Some (len (Chunks b))" by (simp add: shape_def)
    moreover have "holds_only frags b" using held Some by (simp add: held_def)
    then have "finalize_content to_int ?m messageID now
           = (if len (Chunks b) = int (length frags) then Some (content_of frags) else None)"
      by (rule finalize_content_held[OF fragments_from_nonempty[OF fr] Some])
    ultimately show ?thesis unfolding sh[symmetric] by simp
  qed
qed

text \<open>
  Claim C1.  Let \<open>frags\<close> be the fragments of one message with sequences \<open>0, \<dots>, N\<close>
  (\<open>N \<ge> 0\<close>), \<open>is_final\<close> on sequence \<open>N\<close> only, and let the manager hold no buffer for
  the message.  Ingesting the fragments by \<open>AddChunk\<close> in any permuted order, at any
  times, and then calling \<open>FinalizeMessage\<close> yields the same \<open>Content\<close> as ingesting them
  in the order \<open>0, \<dots>, N\<close>; when a limit of the manager drops a fragment, both calls
  return an error.  With room for one more buffer and \<open>N + 1\<close> fragments, that content
  is the concatenation of the \<open>content\<close> payloads in sequence order.
\<close>

theorem permuted_arrival_same_content:
  assumes fr: "fragments_from messageID 0 frags"
    and perm: "mset (map snd permuted) = mset frags"
    and seq: "map snd sequential = frags"
    and new: "fmlookup (buffers m) messageID = None"
  shows "finalize_content to_int (AddChunks m permuted) messageID t1
           = finalize_content to_int (AddChunks m sequential) messageID t2
     \<and> (len (buffers m) + 1 < maxBuffersPerPod m \<and> int (length frags) \<le> maxChunksPerBuffer m
          \<longrightarrow> finalize_content to_int (AddChunks m permuted) messageID t1
                = Some (content_of frags))"
proof -
  have seq': "mset (map snd sequential) = mset frags" using seq by simp
  have same: "finalize_content to_int (AddChunks m permuted) messageID t1
           = finalize_content to_int (AddChunks m sequential) messageID t2"
    unfolding ingest_content[OF fr perm new] ingest_content[OF fr seq' new] ..
  have room: "finalize_content to_int (AddChunks m permuted) messageID t1 = Some (content_of frags)"
    if cap: "len (buffers m) + 1 < maxBuffersPerPod m \<and> int (length frags) \<le> maxChunksPerBuffer m"
  proof -
    have pos: "0 < length frags" using fragments_from_nonempty[OF fr] by simp
    have "shape m messageID = (len (buffers m), None)" using new by (simp add: shape_def)
    then have "((shape_step (maxBuffersPerPod m) (maxChunksPerBuffer m)) ^^ length frags)
                  (shape m messageID) = (len (buffers m) + 1, Some (int (length frags)))"
      using cap pos by (simp add: shape_step_room_new)
    then show ?thesis unfolding ingest_content[OF fr perm new] by simp
  qed
  from same room show ?thesis by blast
qed

theorem permuted_arrival_same_content_witness:
  "fragments_from ''M2'' 0 ex_frags
   \<and> mset (map snd [(5, ex_frags ! 2), (6, ex_frags ! 0), (7, ex_frags ! 1)]) = mset ex_frags
   \<and> fmlookup (buffers ex_one) ''M2'' = None
   \<and> len (buffers ex_one) + 1 < maxBuffersPerPod ex_one
   \<and> int (length ex_frags) \<le> maxChunksPerBuffer ex_one
   \<and> finalize_content (\<lambda>x. x)
        (AddChunks ex_one [(5, ex_frags ! 2), (6, ex_frags ! 0), (7, ex_frags ! 1)]) ''M2'' 8
       = Some ''xyz''
   \<and> finalize_content (\<lambda>x. x)
        (AddChunks ex_one [(1, ex_frags ! 0), (2, ex_frags ! 1), (3, ex_frags ! 2)]) ''M2'' 4
       = Some ''xyz''"
proof -
  let ?p = "[(5, ex_frags ! 2), (6, ex_frags ! 0), (7, ex_frags ! 1)]"
  let ?s = "[(1, ex_frags ! 0), (2, ex_frags ! 1), (3, ex_frags ! 2)]"
  have fr: "fragments_from ''M2'' 0 ex_frags"
    by (simp add: ex_frags_def ex_chunk_def)
  have perm: "mset (map snd ?p) = mset ex_frags"
    by (simp add: ex_frags_def)
  have seq: "map snd ?s = ex_frags"
    by (simp add: ex_frags_def)
  have new: "fmlookup (buffers ex_one) ''M2'' = None"
    by (simp add: ex_one_def buffer_eval)
  have cap: "len (buffers ex_one) + 1 < maxBuffersPerPod ex_one"
    "int (length ex_frags) \<le> maxChunksPerBuffer ex_one"
    by (simp_all add: ex_one_def buffer_eval ex_frags_def)
  have content: "content_of ex_frags = ''xyz''"
    by (simp add: content_of_def ex_frags_def ex_chunk_def)
  note inst = permuted_arrival_same_content[OF fr perm seq new, of "\<lambda>x. x" 8 4]
  have eq: "finalize_content (\<lambda>x. x) (AddChunks ex_one ?p) ''M2'' 8
      = finalize_content (\<lambda>x. x) (AddChunks ex_one ?s) ''M2'' 4"
    using inst by blast
  have a: "finalize_content (\<lambda>x. x) (AddChunks ex_one ?p) ''M2'' 8 = Some (content_of ex_frags)"
    using inst cap by blast
  have a': "finalize_content (\<lambda>x. x) (AddChunks ex_one ?p) ''M2'' 8 = Some ''xyz''"
    using a unfolding content .
  have b': "finalize_content (\<lambda>x. x) (AddChunks ex_one ?s) ''M2'' 4 = Some ''xyz''"
    by (rule trans[OF eq[symmetric] a'])
  show ?thesis
    by (intro conjI fr perm new cap a' b')
qed

section \<open>The two indices of the stream registry\<close>

lemma finite_fmlookup: "finite {k. fmlookup m k \<noteq> None}"
proof -
  have "{k. fmlookup m k \<noteq> None} = fset (fmdom m)"
    by (auto simp: fmlookup_dom_iff)
  then show ?thesis by simp
qed

lemma len_fmdrop:
  "len (fmdrop k m) = (if fmlookup m k = None then len m else len m - 1)"
proof (cases "fmlookup m k")
  case None
  then have "fmdrop k m = m" by (intro fmdrop_idle') (simp add: fmdom'_notI)
  with None show ?thesis by simp
next
  case (Some v)
  have eq: "{k'. fmlookup (fmdrop k m) k' \<noteq> None} = {k'. fmlookup m k' \<noteq> None} - {k}"
    by auto
  have mem: "k \<in> {k'. fmlookup m k' \<noteq> None}" using Some by simp
  have c1: "card ({k'. fmlookup m k' \<noteq> None} - {k}) = card {k'. fmlookup m k' \<noteq> None} - 1"
    using mem by (simp add: card_Diff_singleton)
  have c2: "0 < card {k'. fmlookup m k' \<noteq> None}"
    using mem finite_fmlookup[of m] by (metis card_gt_0_iff empty_iff)
  have "len (fmdrop k m) = int (card {k'. fmlookup m k' \<noteq> None} - 1)"
    unfolding len_card eq c1 ..
  also have "\<dots> = int (card {k'. fmlookup m k' \<noteq> None}) - 1"
    using c2 by (simp add: of_nat_diff)
  also have "\<dots> = len m - 1" unfolding len_card ..
  finally show ?thesis using Some by simp
qed

lemma total_len_fmdrop:
  "total_len ss = total_len (fmdrop k ss)
      + length (case fmlookup ss k of None \<Rightarrow> [] | Some l \<Rightarrow> l)"
proof (cases "fmlookup ss k")
  case None
  then have "fmdrop k ss = ss" by (intro fmdrop_idle') (simp add: fmdom'_notI)
  with None show ?thesis by simp
next
  case (Some l)
  then have mem: "k \<in> fset (fmdom ss)" by (simp add: fmdomI)
  have dom: "fset (fmdom (fmdrop k ss)) = fset (fmdom ss) - {k}" by auto
  have "total_len ss = length l + (\<Sum>s \<in> fset (fmdom ss) - {k}.
        length (case fmlookup ss s of None \<Rightarrow> [] | Some l \<Rightarrow> l))"
    unfolding total_len_def using mem Some by (subst sum.remove[of _ k]) simp_all
  also have "(\<Sum>s \<in> fset (fmdom ss) - {k}. length (case fmlookup ss s of None \<Rightarrow> [] | Some l \<Rightarrow> l))
      = total_len (fmdrop k ss)"
    unfolding total_len_def dom by (intro sum.cong) auto
  finally show ?thesis using Some by simp
qed

lemma total_len_fmupd:
  "total_len (fmupd k l ss) = total_len (fmdrop k ss) + length l"
proof -
  have "total_len (fmupd k l ss) = total_len (fmdrop k (fmupd k l ss)) + length l"
    by (subst total_len_fmdrop[of _ k]) simp
  then show ?thesis by (simp add: fmdrop_fmupd_same)
qed


lemma session_conns_fmupd:
  "session_conns (m\<lparr> sessions := fmupd sid l (sessions m) \<rparr>) s
     = (if s = sid then l else session_conns m s)"
  by (simp add: session_conns_def)

lemma AddConnection_refused:
  "AddConnection m newID sid uid False ip ua now wok = (Inl StreamingNotSupported, m)"
  by (simp add: AddConnection_def)

lemma AddConnection_fields:
  fixes m newID sid uid ip ua now wok
  defines "m' \<equiv> snd (AddConnection m newID sid uid True ip ua now wok)"
  shows "connections m' = fmupd newID (next_ptr m) (connections m)"
    and "sessions m' = fmupd sid (session_conns m sid @ [next_ptr m]) (sessions m)"
    and "next_ptr m' = Suc (next_ptr m)"
    and "conn_ID (heap m' q) = (if q = next_ptr m then newID else conn_ID (heap m q))"
    and "conn_SessionID (heap m' q) = (if q = next_ptr m then sid else conn_SessionID (heap m q))"
  unfolding m'_def
  by (simp_all add: AddConnection_def SendEvent_def writeEvent_def session_conns_def Let_def)

lemma AddConnection_session_conns:
  "session_conns (snd (AddConnection m newID sid uid True ip ua now wok)) s
     = (if s = sid then session_conns m sid @ [next_ptr m] else session_conns m s)"
  by (simp add: session_conns_def AddConnection_fields(2))

lemma RemoveConnection_unknown:
  "fmlookup (connections m) connectionID = None \<Longrightarrow> RemoveConnection m connectionID = m"
  by (simp add: RemoveConnection_def)

lemma RemoveConnection_fields:
  assumes "fmlookup (connections m) connectionID = Some p"
  defines "m' \<equiv> RemoveConnection m connectionID"
  defines "sid \<equiv> conn_SessionID (heap m p)"
  shows "connections m' = fmdrop connectionID (connections m)"
    and "sessions m' =
           (case fmlookup (sessions m) sid of
              None \<Rightarrow> sessions m
            | Some l \<Rightarrow>
                if remove_first (heap m) connectionID l = [] then fmdrop sid (sessions m)
                else fmupd sid (remove_first (heap m) connectionID l) (sessions m))"
    and "next_ptr m' = next_ptr m"
    and "conn_ID (heap m' q) = conn_ID (heap m q)"
    and "conn_SessionID (heap m' q) = conn_SessionID (heap m q)"
  unfolding m'_def sid_def using assms(1)
  by (simp_all add: RemoveConnection_def session_conns_def Let_def fmdrop_fmupd_same
      split: option.splits)

lemma RemoveConnection_session_conns:
  assumes "fmlookup (connections m) connectionID = Some p"
  shows "session_conns (RemoveConnection m connectionID) s
     = (if s = conn_SessionID (heap m p)
        then remove_first (heap m) connectionID (session_conns m s)
        else session_conns m s)"
  by (auto simp: session_conns_def RemoveConnection_fields(2)[OF assms] split: option.splits)

lemma remove_first_remove1:
  "\<forall>c \<in> set l. conn_ID (h c) = connectionID \<longleftrightarrow> c = p
     \<Longrightarrow> remove_first h connectionID l = remove1 p l"
  by (induction l) auto


lemma sse_invariantD:
  assumes "sse_invariant m"
  shows "\<And>c q. fmlookup (connections m) c = Some q \<Longrightarrow>
            conn_ID (heap m q) = c \<and> q < next_ptr m
            \<and> q \<in> set (session_conns m (conn_SessionID (heap m q)))"
    and "\<And>s q. q \<in> set (session_conns m s) \<Longrightarrow>
            conn_SessionID (heap m q) = s
            \<and> fmlookup (connections m) (conn_ID (heap m q)) = Some q"
    and "\<And>s. distinct (session_conns m s)"
    and "\<And>s. fmlookup (sessions m) s \<noteq> Some []"
    and "len (connections m) = int (total_len (sessions m))"
  using assms unfolding sse_invariant_def by blast+

lemma sse_invariantI:
  assumes "\<And>c q. fmlookup (connections m) c = Some q \<Longrightarrow>
            conn_ID (heap m q) = c \<and> q < next_ptr m
            \<and> q \<in> set (session_conns m (conn_SessionID (heap m q)))"
    and "\<And>s q. q \<in> set (session_conns m s) \<Longrightarrow>
            conn_SessionID (heap m q) = s
            \<and> fmlookup (connections m) (conn_ID (heap m q)) = Some q"
    and "\<And>s. distinct (session_conns m s)"
    and "\<And>s. fmlookup (sessions m) s \<noteq> Some []"
    and "len (connections m) = int (total_len (sessions m))"
  shows "sse_invariant m"
  using assms unfolding sse_invariant_def by blast

lemma sse_invariant_NewManager: "sse_invariant (sse_NewManager h)"
  by (simp add: sse_invariant_def sse_NewManager_def session_conns_def total_len_def)

lemma sse_invariant_Add:
  assumes inv: "sse_invariant m" and fresh: "fmlookup (connections m) newID = None"
  shows "sse_invariant (snd (AddConnection m newID sid uid fl ip ua now wok))"
proof (cases fl)
  case False
  then show ?thesis using inv by (simp add: AddConnection_refused)
next
  case True
  let ?m = "snd (AddConnection m newID sid uid True ip ua now wok)"
  let ?p = "next_ptr m"
  note I = sse_invariantD[OF inv]
  note F = AddConnection_fields[of m newID sid uid ip ua now wok]
  note S = AddConnection_session_conns[of m newID sid uid ip ua now wok]
  have notin: "?p \<notin> set (session_conns m s)" for s
  proof
    assume "?p \<in> set (session_conns m s)"
    then have "fmlookup (connections m) (conn_ID (heap m ?p)) = Some ?p" using I(2) by blast
    then have "?p < ?p" using I(1) by blast
    then show False by simp
  qed
  have "sse_invariant ?m"
  proof (rule sse_invariantI)
    fix c q assume "fmlookup (connections ?m) c = Some q"
    then consider "c = newID" "q = ?p" | "c \<noteq> newID" "fmlookup (connections m) c = Some q"
      unfolding F(1) by (auto split: if_splits)
    then show "conn_ID (heap ?m q) = c \<and> q < next_ptr ?m
        \<and> q \<in> set (session_conns ?m (conn_SessionID (heap ?m q)))"
    proof cases
      case 1
      then show ?thesis by (simp add: F S)
    next
      case 2
      from I(1)[OF 2(2)] have q: "conn_ID (heap m q) = c" "q < ?p"
        "q \<in> set (session_conns m (conn_SessionID (heap m q)))" by simp_all
      then show ?thesis by (auto simp: F S)
    qed
  next
    fix s q assume "q \<in> set (session_conns ?m s)"
    then consider "s = sid" "q = ?p" | "q \<in> set (session_conns m s)"
      unfolding S by (auto split: if_splits)
    then show "conn_SessionID (heap ?m q) = s
        \<and> fmlookup (connections ?m) (conn_ID (heap ?m q)) = Some q"
    proof cases
      case 1
      then show ?thesis by (simp add: F)
    next
      case 2
      with notin have ne: "q \<noteq> ?p" by blast
      from I(2)[OF 2] have q: "conn_SessionID (heap m q) = s"
        "fmlookup (connections m) (conn_ID (heap m q)) = Some q" by simp_all
      with fresh have "conn_ID (heap m q) \<noteq> newID" by auto
      with q ne show ?thesis by (simp add: F)
    qed
  next
    fix s show "distinct (session_conns ?m s)"
      using I(3) notin by (simp add: S)
  next
    fix s show "fmlookup (sessions ?m) s \<noteq> Some []"
      using I(4) by (simp add: F)
  next
    have "total_len (sessions ?m) = total_len (fmdrop sid (sessions m)) + length (session_conns m sid) + 1"
      by (simp add: F total_len_fmupd)
    also have "\<dots> = total_len (sessions m) + 1"
      using total_len_fmdrop[of "sessions m" sid] by (simp add: session_conns_def)
    finally show "len (connections ?m) = int (total_len (sessions ?m))"
      using I(5) fresh by (simp add: F len_fmupd)
  qed
  with True show ?thesis by simp
qed


lemma sse_invariant_Remove:
  assumes inv: "sse_invariant m"
  shows "sse_invariant (RemoveConnection m connectionID)"
proof (cases "fmlookup (connections m) connectionID")
  case None
  with inv show ?thesis by (simp add: RemoveConnection_unknown)
next
  case (Some p)
  let ?m = "RemoveConnection m connectionID"
  let ?sid = "conn_SessionID (heap m p)"
  let ?l = "session_conns m ?sid"
  note I = sse_invariantD[OF inv]
  note F = RemoveConnection_fields[OF Some]
  from I(1)[OF Some] have p: "conn_ID (heap m p) = connectionID" "p \<in> set ?l" by simp_all
  have "\<forall>c \<in> set ?l. conn_ID (heap m c) = connectionID \<longleftrightarrow> c = p"
  proof
    fix c assume "c \<in> set ?l"
    then have lc: "fmlookup (connections m) (conn_ID (heap m c)) = Some c" using I(2) by blast
    show "conn_ID (heap m c) = connectionID \<longleftrightarrow> c = p"
    proof
      assume "conn_ID (heap m c) = connectionID"
      with lc have "fmlookup (connections m) connectionID = Some c" by simp
      with Some show "c = p" by simp
    next
      assume "c = p"
      with p(1) show "conn_ID (heap m c) = connectionID" by simp
    qed
  qed
  then have rf: "remove_first (heap m) connectionID ?l = remove1 p ?l"
    by (rule remove_first_remove1)
  have S: "session_conns ?m s = (if s = ?sid then remove1 p ?l else session_conns m s)" for s
    using RemoveConnection_session_conns[OF Some, of s] rf by simp
  have look: "fmlookup (sessions m) ?sid = Some ?l"
  proof (cases "fmlookup (sessions m) ?sid")
    case None
    then have "?l = []" by (simp add: session_conns_def)
    with p(2) show ?thesis by simp
  next
    case (Some l)
    then show ?thesis by (simp add: session_conns_def)
  qed
  have sess: "sessions ?m =
      (if remove1 p ?l = [] then fmdrop ?sid (sessions m)
       else fmupd ?sid (remove1 p ?l) (sessions m))"
    using F(2) look rf by simp
  have len1: "length (remove1 p ?l) = length ?l - 1"
    using p(2) by (simp add: length_remove1)
  have pos: "0 < length ?l" using p(2) by (cases ?l) auto
  show ?thesis
  proof (rule sse_invariantI)
    fix c q assume "fmlookup (connections ?m) c = Some q"
    then have c: "c \<noteq> connectionID" "fmlookup (connections m) c = Some q"
      unfolding F(1) by (auto split: if_splits)
    from I(1)[OF c(2)] have q: "conn_ID (heap m q) = c" "q < next_ptr m"
      "q \<in> set (session_conns m (conn_SessionID (heap m q)))" by simp_all
    have "q \<noteq> p"
    proof
      assume "q = p"
      with q(1) p(1) have "c = connectionID" by simp
      with c(1) show False by simp
    qed
    with q show "conn_ID (heap ?m q) = c \<and> q < next_ptr ?m
        \<and> q \<in> set (session_conns ?m (conn_SessionID (heap ?m q)))"
      by (auto simp: F S)
  next
    fix s q assume a: "q \<in> set (session_conns ?m s)"
    then have mem: "q \<in> set (session_conns m s)"
      unfolding S using set_remove1_subset[of p ?l] by (auto split: if_splits)
    have ne: "q \<noteq> p"
    proof
      assume "q = p"
      with mem I(2) have "s = ?sid" by blast
      with a \<open>q = p\<close> have "p \<in> set (remove1 p ?l)" unfolding S by simp
      with I(3)[of ?sid] show False by (simp add: set_remove1_eq)
    qed
    from I(2)[OF mem] have q: "conn_SessionID (heap m q) = s"
      "fmlookup (connections m) (conn_ID (heap m q)) = Some q" by simp_all
    have "conn_ID (heap m q) \<noteq> connectionID"
    proof
      assume "conn_ID (heap m q) = connectionID"
      with q(2) have "fmlookup (connections m) connectionID = Some q" by simp
      with Some ne show False by simp
    qed
    with q show "conn_SessionID (heap ?m q) = s
        \<and> fmlookup (connections ?m) (conn_ID (heap ?m q)) = Some q"
      by (simp add: F)
  next
    fix s show "distinct (session_conns ?m s)"
      using I(3) by (simp add: S)
  next
    fix s show "fmlookup (sessions ?m) s \<noteq> Some []"
      using I(4) by (simp add: sess)
  next
    have tot: "total_len (sessions m) = total_len (fmdrop ?sid (sessions m)) + length ?l"
      using total_len_fmdrop[of "sessions m" ?sid] look by simp
    have "total_len (sessions ?m) = total_len (fmdrop ?sid (sessions m)) + length (remove1 p ?l)"
      by (simp add: sess total_len_fmupd)
    with tot len1 pos have "int (total_len (sessions ?m)) = int (total_len (sessions m)) - 1"
      by arith
    then show "len (connections ?m) = int (total_len (sessions ?m))"
      using I(5) Some by (simp add: F len_fmdrop)
  qed
qed

lemma sse_invariant_run:
  "sse_invariant m \<Longrightarrow> ids_fresh m calls \<Longrightarrow> sse_invariant (run_calls m calls)"
proof (induction calls arbitrary: m)
  case Nil
  then show ?case by simp
next
  case (Cons c cs)
  have "sse_invariant (apply_call m c)"
  proof (cases c)
    case (CallAdd newID sid uid fl ip ua now wok)
    with Cons.prems show ?thesis by (simp add: sse_invariant_Add)
  next
    case (CallRemove connectionID)
    with Cons.prems show ?thesis by (simp add: sse_invariant_Remove)
  qed
  with Cons show ?case by simp
qed


lemma count_list_distinct:
  "distinct xs \<Longrightarrow> count_list xs x = (if x \<in> set xs then 1 else 0)"
  by (induction xs) auto

lemma sse_invariant_registered:
  assumes inv: "sse_invariant m"
  shows "p |\<in>| fmran (connections m)
     \<longleftrightarrow> count_list (session_conns m (conn_SessionID (heap m p))) p = 1"
proof
  assume "p |\<in>| fmran (connections m)"
  then obtain c where "fmlookup (connections m) c = Some p" by (auto elim: fmranE)
  then have "p \<in> set (session_conns m (conn_SessionID (heap m p)))"
    using sse_invariantD(1)[OF inv] by blast
  then show "count_list (session_conns m (conn_SessionID (heap m p))) p = 1"
    using sse_invariantD(3)[OF inv] by (simp add: count_list_distinct)
next
  assume "count_list (session_conns m (conn_SessionID (heap m p))) p = 1"
  then have "p \<in> set (session_conns m (conn_SessionID (heap m p)))"
    using sse_invariantD(3)[OF inv, of "conn_SessionID (heap m p)"]
    by (simp add: count_list_distinct split: if_splits)
  then have "fmlookup (connections m) (conn_ID (heap m p)) = Some p"
    using sse_invariantD(2)[OF inv] by blast
  then show "p |\<in>| fmran (connections m)" by (rule fmranI)
qed

lemma sse_invariant_active:
  assumes inv: "sse_invariant m"
  shows "HasActiveConnections m s
     \<longleftrightarrow> (\<exists>p. p |\<in>| fmran (connections m) \<and> conn_SessionID (heap m p) = s)"
proof
  assume "HasActiveConnections m s"
  then obtain p where p: "p \<in> set (session_conns m s)"
    by (cases "session_conns m s") (auto simp: HasActiveConnections_def)
  from sse_invariantD(2)[OF inv p]
  have "conn_SessionID (heap m p) = s" "fmlookup (connections m) (conn_ID (heap m p)) = Some p"
    by simp_all
  then show "\<exists>p. p |\<in>| fmran (connections m) \<and> conn_SessionID (heap m p) = s"
    by (auto intro: fmranI)
next
  assume "\<exists>p. p |\<in>| fmran (connections m) \<and> conn_SessionID (heap m p) = s"
  then obtain p c where "fmlookup (connections m) c = Some p" "conn_SessionID (heap m p) = s"
    by (auto elim: fmranE)
  then have "p \<in> set (session_conns m s)" using sse_invariantD(1)[OF inv] by blast
  then show "HasActiveConnections m s"
    by (cases "session_conns m s") (auto simp: HasActiveConnections_def)
qed

lemma sse_invariant_session_count:
  assumes inv: "sse_invariant m"
  shows "GetSessionCount m = int (card {s. HasActiveConnections m s})"
proof -
  have "HasActiveConnections m s \<longleftrightarrow> fmlookup (sessions m) s \<noteq> None" for s
  proof (cases "fmlookup (sessions m) s")
    case None
    then show ?thesis by (simp add: HasActiveConnections_def session_conns_def)
  next
    case (Some l)
    with sse_invariantD(4)[OF inv, of s] have "l \<noteq> []" by auto
    with Some show ?thesis by (simp add: HasActiveConnections_def session_conns_def)
  qed
  then have "{s. HasActiveConnections m s} = {s. fmlookup (sessions m) s \<noteq> None}"
    by simp
  then show ?thesis by (simp add: GetSessionCount_def len_card)
qed

text \<open>
  Claim C10.  Take any finite run of \<open>AddConnection\<close> and \<open>RemoveConnection\<close> calls on a
  new manager in which every id drawn by \<open>uuid.New()\<close> was not registered at that moment.
  Afterwards the two indices agree: a connection object is in the connections map iff
  it occurs exactly once in the slice of its session; no session key maps to an empty
  slice; \<open>GetConnectionCount\<close> is the sum of the slice lengths; \<open>GetSessionCount\<close> is the
  number of sessions with an active connection; \<open>HasActiveConnections s\<close> holds iff a
  registered connection has session id \<open>s\<close>; and \<open>RemoveConnection\<close> with an unknown id
  leaves the state unchanged.
\<close>

theorem sse_indices_agree:
  fixes h calls
  defines "m \<equiv> run_calls (sse_NewManager h) calls"
  assumes fresh: "ids_fresh (sse_NewManager h) calls"
  shows "(\<forall>p. p |\<in>| fmran (connections m)
            \<longleftrightarrow> count_list (session_conns m (conn_SessionID (heap m p))) p = 1)
     \<and> (\<forall>s. fmlookup (sessions m) s \<noteq> Some [])
     \<and> GetConnectionCount m = int (total_len (sessions m))
     \<and> GetSessionCount m = int (card {s. HasActiveConnections m s})
     \<and> (\<forall>s. HasActiveConnections m s
            \<longleftrightarrow> (\<exists>p. p |\<in>| fmran (connections m) \<and> conn_SessionID (heap m p) = s))
     \<and> (\<forall>c. fmlookup (connections m) c = None \<longrightarrow> RemoveConnection m c = m)"
proof -
  have inv: "sse_invariant m"
    unfolding m_def by (intro sse_invariant_run sse_invariant_NewManager fresh)
  show ?thesis
    using sse_invariant_registered[OF inv] sse_invariantD(4,5)[OF inv]
      sse_invariant_session_count[OF inv] sse_invariant_active[OF inv]
    by (simp add: GetConnectionCount_def RemoveConnection_unknown)
qed

lemmas sse_eval =
  ex_calls_def ex_heap_def sse_NewManager_def AddConnection_def SendEvent_def writeEvent_def
  RemoveConnection_def session_conns_def Let_def

theorem sse_indices_agree_witness:
  "ids_fresh (sse_NewManager ex_heap) ex_calls
   \<and> fmlookup (connections (run_calls (sse_NewManager ex_heap) ex_calls)) ''zz'' = None
   \<and> RemoveConnection (run_calls (sse_NewManager ex_heap) ex_calls) ''zz''
       = run_calls (sse_NewManager ex_heap) ex_calls
   \<and> session_conns (run_calls (sse_NewManager ex_heap) ex_calls) ''S1'' = [1]
   \<and> session_conns (run_calls (sse_NewManager ex_heap) ex_calls) ''S2'' = [2]
   \<and> GetConnectionCount (run_calls (sse_NewManager ex_heap) ex_calls) = 2
   \<and> GetSessionCount (run_calls (sse_NewManager ex_heap) ex_calls) = 2"
proof -
  let ?m = "run_calls (sse_NewManager ex_heap) ex_calls"
  have fresh: "ids_fresh (sse_NewManager ex_heap) ex_calls"
    by (simp add: sse_eval)
  have conns: "connections ?m = fmupd ''c3'' 2 (fmupd ''c2'' 1 fmempty)"
    by (simp add: sse_eval fmdrop_fmupd numeral_2_eq_2)
  have sess: "sessions ?m = fmupd ''S2'' [2] (fmupd ''S1'' [1] fmempty)"
    by (rule fmap_ext) (auto simp: sse_eval fmdrop_fmupd numeral_2_eq_2)
  have unknown: "fmlookup (connections ?m) ''zz'' = None"
    by (simp add: conns)
  note inst = sse_indices_agree[OF fresh]
  from inst unknown have same: "RemoveConnection ?m ''zz'' = ?m" by blast
  have s1: "session_conns ?m ''S1'' = [1]" "session_conns ?m ''S2'' = [2]"
    by (simp_all add: session_conns_def sess)
  from inst have "GetConnectionCount ?m = int (total_len (sessions ?m))" by blast
  also have "\<dots> = 2" by (simp add: sess total_len_fmupd fmdrop_fmupd total_len_def)
  finally have cc: "GetConnectionCount ?m = 2" .
  have sc: "GetSessionCount ?m = 2"
    by (simp add: GetSessionCount_def sess len_fmupd)
  show ?thesis
    by (intro conjI fresh unknown same s1 cc sc)
qed

end
